theory Spec2Isabelle
  imports Complex_Main
begin

section \<open>Scoring engine: \<^verbatim>\<open>ankh_aten/metrics.py\<close>\<close>

text \<open>
  Python floats are modelled as real numbers: every arithmetic operation is the exact
  one, and \<^verbatim>\<open>float(x)\<close> is the identity. Times (\<^verbatim>\<open>datetime\<close> values) are
  real numbers of seconds since the Unix epoch.
\<close>

definition P :: real where
  "P = 1618033988749895 / 10 ^ 15"

definition S :: real where
  "S = 1"

definition TH :: real where
  "TH = 9777 / 10000"

text \<open>\<^verbatim>\<open>O = datetime(2025, 12, 25, tzinfo=timezone.utc)\<close>, in seconds since the epoch.\<close>

definition O_omega :: real where
  "O_omega = 1766620800"

definition I :: "int list" where
  "I = [85, 62, 65, 78, 100, 100, 100, 100, 100, 95, 100, 100]"

text \<open>
  \<^verbatim>\<open>def ps(x, n=3)\<close>: the input is clamped, the closed form is computed with
  \<^verbatim>\<open>P**n\<close> (an integer power, negative exponents allowed), and the output is clamped.
  This is the reading in exact arithmetic, on which \<^verbatim>\<open>rd\<close> and \<^verbatim>\<open>snapshot\<close> are
  modelled; they call \<^verbatim>\<open>ps\<close> at the default depth 3 only. The function as the
  interpreter computes it, with rounding and with the exception of an overflowing power,
  is \<open>ps_double\<close> below, and what is proved of \<^verbatim>\<open>ps\<close> itself is proved of that.
\<close>

definition ps :: "real \<Rightarrow> int \<Rightarrow> real" where
  "ps x n = (let x' = max 0 (min 1 x) in max 0 (min 1 (1 - (1 - x') / (P powi n))))"

text \<open>
  \<^verbatim>\<open>def rd(p, t=0.998, c=0.999, d=0.00023)\<close>. The fractional powers are modelled by
  \<open>powr\<close>, which agrees with Python's \<^verbatim>\<open>**\<close> on non-negative bases (in particular
  \<^verbatim>\<open>0.0 ** 0.5 == 0.0\<close>); on a negative base Python leaves the reals, and the model
  is not meant for such arguments. The three calls of \<^verbatim>\<open>ps\<close> use the default depth 3.
\<close>

definition rd :: "real \<Rightarrow> real \<Rightarrow> real \<Rightarrow> real \<Rightarrow> real" where
  "rd p t c d = S * ps (p powr (5 / 10)) 3 * ps (t powr (3 / 10)) 3 * ps (c powr (2 / 10)) 3 * (1 - d)"

definition rd_default_t :: real where "rd_default_t = 998 / 1000"
definition rd_default_c :: real where "rd_default_c = 999 / 1000"
definition rd_default_d :: real where "rd_default_d = 23 / 100000"

record snap =
  snap_t :: real
  snap_d :: real
  snap_a :: real
  snap_r :: real
  snap_g :: int

text \<open>The gate expression \<^verbatim>\<open>int(r >= TH)\<close> of \<^verbatim>\<open>snapshot\<close>.\<close>

definition gate_of :: "real \<Rightarrow> int" where
  "gate_of r = (if r \<ge> TH then 1 else 0)"

text \<open>
  \<^verbatim>\<open>def snapshot(now=None)\<close>. The argument is \<open>None\<close> or a time; the first parameter
  of the model is what \<^verbatim>\<open>datetime.now(timezone.utc)\<close> returns at the call. The field
  \<^verbatim>\<open>"t"\<close> holds the time itself instead of its ISO rendering.
\<close>

definition snapshot :: "real \<Rightarrow> real option \<Rightarrow> snap" where
  "snapshot clock now =
     (let n = (case now of Some t \<Rightarrow> t | None \<Rightarrow> clock);
          d = max 0 ((O_omega - n) / 86400);
          a = real_of_int (sum_list I) / real_of_int (100 * int (length I));
          r = rd a rd_default_t rd_default_c rd_default_d
      in \<lparr>snap_t = n, snap_d = d, snap_a = a * 100, snap_r = r, snap_g = gate_of r\<rparr>)"

section \<open>Double-precision arithmetic\<close>

text \<open>
  The interpreter computes on IEEE 754 binary64 numbers. A double is modelled by the real
  number it denotes, and an operation by the exact operation followed by rounding to the
  nearest double, ties to the even significand: \<open>rne\<close> rounds a real to the nearest
  integer, ties to even; \<open>fexp x\<close> is the exponent of the binade of \<open>x\<close>, not below the
  subnormal exponent \<open>- 1022\<close>; \<open>ulp x\<close> is the spacing of the doubles there; and
  \<open>fl x\<close> is the multiple of \<open>ulp x\<close> nearest to \<open>x\<close>. The exponent is not bounded
  above in \<open>fl\<close>: where the code's result would be infinite, the operation that
  raises is modelled with its exception (\<open>float_pow\<close>), and elsewhere the note at the
  definition says why the value does not matter.
\<close>

definition rne :: "real \<Rightarrow> int" where
  "rne r =
     (let f = \<lfloor>r\<rfloor> in
      if r - of_int f < 1 / 2 then f
      else if 1 / 2 < r - of_int f then f + 1
      else if even f then f else f + 1)"

definition fexp :: "real \<Rightarrow> int" where
  "fexp x = max \<lfloor>log 2 \<bar>x\<bar>\<rfloor> (- 1022)"

definition ulp :: "real \<Rightarrow> real" where
  "ulp x = 2 powi (fexp x - 52)"

definition fl :: "real \<Rightarrow> real" where
  "fl x = (if x = 0 then 0 else of_int (rne (x / ulp x)) * ulp x)"

text \<open>The largest double.\<close>

definition max_double :: real where
  "max_double = (2 ^ 53 - 1) * 2 ^ 971"

text \<open>The exceptions of the arithmetic and of the interpreter's call stack.\<close>

datatype arith_error = OverflowError | ZeroDivisionError | RecursionError

text \<open>The literal \<^verbatim>\<open>1.618033988749895\<close> denotes the double nearest to it.\<close>

definition P_double :: real where
  "P_double = fl P"

text \<open>
  \<^verbatim>\<open>b ** n\<close> for a double \<open>b\<close> and an integer \<open>n\<close>: the power is computed by the C
  library, taken here as correctly rounded, and a result beyond the largest double raises
  \<^verbatim>\<open>OverflowError\<close>. A result too small for a double is \<open>0\<close>, without an exception.
\<close>

definition float_pow :: "real \<Rightarrow> int \<Rightarrow> arith_error + real" where
  "float_pow b n =
     (let v = fl (b powi n) in if max_double < \<bar>v\<bar> then Inl OverflowError else Inr v)"

text \<open>
  \<^verbatim>\<open>ps\<close> of \<^verbatim>\<open>metrics.py\<close> as the interpreter computes it, for a double \<open>x\<close> (on which
  \<^verbatim>\<open>float(x)\<close> is the identity): \<^verbatim>\<open>P**n\<close> may raise, a division by \<open>0.0\<close> raises,
  and the subtractions and the division round. For a negative depth the quotient can
  exceed the largest double; the code's \<open>inf\<close> and the model's finite quotient both
  give a negative difference and, after clamping, \<open>0\<close>.
\<close>

definition ps_double :: "real \<Rightarrow> int \<Rightarrow> arith_error + real" where
  "ps_double x n =
     (let x' = max 0 (min 1 x) in
      case float_pow P_double n of
        Inl e \<Rightarrow> Inl e
      | Inr y \<Rightarrow>
          if y = 0 then Inl ZeroDivisionError
          else Inr (max 0 (min 1 (fl (1 - fl (fl (1 - x') / y))))))"

subsection \<open>The iterated forms: \<^verbatim>\<open>backend/app/recursive_phi.py\<close>\<close>

text \<open>\<^verbatim>\<open>PHI\<close> of \<^verbatim>\<open>backend/app/constants.py\<close>: the same literal as \<^verbatim>\<open>P\<close>.\<close>

definition PHI :: real where
  "PHI = 1618033988749895 / 10 ^ 15"

definition PHI_double :: real where
  "PHI_double = fl PHI"

text \<open>The expression \<^verbatim>\<open>1.0 - (1.0 - x) / PHI\<close>, with its three roundings.\<close>

definition phi_step :: "real \<Rightarrow> real" where
  "phi_step x = fl (1 - fl (fl (1 - x) / PHI_double))"

text \<open>
  \<^verbatim>\<open>phi_smooth_recursive\<close>. Every call takes a frame of the interpreter's stack; the
  first argument of the model is the number of frames that the recursion limit still
  allows at the call, and a call with none left raises \<^verbatim>\<open>RecursionError\<close>.
\<close>

fun phi_smooth_recursive :: "nat \<Rightarrow> real \<Rightarrow> int \<Rightarrow> arith_error + real" where
  "phi_smooth_recursive 0 x n = Inl RecursionError"
| "phi_smooth_recursive (Suc frames) x n =
     (let x' = max 0 (min 1 x) in
      if n \<le> 0 then Inr x'
      else phi_smooth_recursive frames (phi_step x') (n - 1))"

text \<open>The body of \<^verbatim>\<open>for _ in range(n): x = 1.0 - (1.0 - x) / PHI\<close>, run \<open>k\<close> times.\<close>

fun phi_iterate :: "nat \<Rightarrow> real \<Rightarrow> real" where
  "phi_iterate 0 x = x"
| "phi_iterate (Suc k) x = phi_iterate k (phi_step x)"

definition phi_smooth_iterative :: "real \<Rightarrow> int \<Rightarrow> real" where
  "phi_smooth_iterative x n =
     (let x0 = max 0 (min 1 x) in max 0 (min 1 (phi_iterate (nat n) x0)))"

section \<open>Component registry: \<^verbatim>\<open>ankh_aten/registry.py\<close>\<close>

text \<open>The exceptions the modelled code raises, each with the text of its argument.\<close>

datatype pyerror =
    KeyError string
  | ValueError string
  | TypeError string
  | AttributeError string
  | ImportError string
  | OSError string
  | YAMLError string

text \<open>Values of parsed YAML or JSON documents, and of component configurations.\<close>

datatype pyval =
    VNone
  | VBool bool
  | VInt int
  | VStr string
  | VList "pyval list"
  | VDict "(string \<times> pyval) list"

text \<open>
  A Python \<^verbatim>\<open>dict\<close> is an association list in insertion order with one pair for each
  key: \<^verbatim>\<open>d[k] = v\<close> replaces the value of a key that is present, in place, and adds a
  new key at the end.
\<close>

type_synonym ('k, 'v) pydict = "('k \<times> 'v) list"

fun dict_set :: "'k \<Rightarrow> 'v \<Rightarrow> ('k, 'v) pydict \<Rightarrow> ('k, 'v) pydict" where
  "dict_set k v [] = [(k, v)]"
| "dict_set k v ((k', v') # kvs) =
     (if k = k' then (k, v) # kvs else (k', v') # dict_set k v kvs)"

definition dict_get :: "('k, 'v) pydict \<Rightarrow> 'k \<Rightarrow> 'v option" where
  "dict_get d k = map_of d k"

record component =
  uid :: string
  kind :: string
  conf :: "(string, pyval) pydict"

record registry =
  components :: "(string, component) pydict"
  loaders :: "(string, string) pydict"

text \<open>\<^verbatim>\<open>Registry.__init__\<close>\<close>

definition Registry_init :: registry where
  "Registry_init = \<lparr>components = [], loaders = []\<rparr>"

text \<open>\<^verbatim>\<open>Registry.use\<close>\<close>

definition use :: "string \<Rightarrow> string \<Rightarrow> registry \<Rightarrow> registry" where
  "use k l reg = reg\<lparr>loaders := dict_set k l (loaders reg)\<rparr>"

text \<open>
  A manifest entry is a mapping with the keys \<^verbatim>\<open>id\<close>, \<^verbatim>\<open>kind\<close> and
  \<^verbatim>\<open>config\<close>, each of which may be absent; ids and kinds are strings, as the manifest
  format has them.
\<close>

record row =
  row_id :: "string option"
  row_kind :: "string option"
  row_config :: "(string, pyval) pydict option"

text \<open>
  The loop of \<^verbatim>\<open>Registry.register_manifest\<close>. The arguments of \<^verbatim>\<open>Component(...)\<close>
  are evaluated in order, so \<^verbatim>\<open>row["id"]\<close> raises before \<^verbatim>\<open>row["kind"]\<close> is read.
  An exception leaves the loop with the registry as it is then: the result is the
  exception, if any, and the registry.
\<close>

fun register_rows :: "row list \<Rightarrow> registry \<Rightarrow> pyerror option \<times> registry" where
  "register_rows [] reg = (None, reg)"
| "register_rows (r # rs) reg =
     (case row_id r of
        None \<Rightarrow> (Some (KeyError ''id''), reg)
      | Some i \<Rightarrow>
          (case row_kind r of
             None \<Rightarrow> (Some (KeyError ''kind''), reg)
           | Some k \<Rightarrow>
               (let c = \<lparr>uid = i, kind = k,
                          conf = (case row_config r of None \<Rightarrow> [] | Some cf \<Rightarrow> cf)\<rparr>
                in register_rows rs (reg\<lparr>components := dict_set (uid c) c (components reg)\<rparr>))))"

text \<open>
  \<^verbatim>\<open>Registry.register_manifest\<close>, from the parsed document on: the argument is the value
  of the document's key \<^verbatim>\<open>components\<close>, \<open>None\<close> when the key is absent
  (\<^verbatim>\<open>data.get("components", [])\<close>). Reading and parsing the file is outside the model.
\<close>

definition register_manifest :: "row list option \<Rightarrow> registry \<Rightarrow> pyerror option \<times> registry" where
  "register_manifest data reg =
     register_rows (case data of None \<Rightarrow> [] | Some rows \<Rightarrow> rows) reg"

text \<open>\<^verbatim>\<open>s.rsplit(sep, 1)\<close> for a one-character separator.\<close>

definition rsplit1 :: "char \<Rightarrow> string \<Rightarrow> string list" where
  "rsplit1 sep s =
     (if sep \<in> set s
      then [rev (tl (dropWhile (\<lambda>x. x \<noteq> sep) (rev s))), rev (takeWhile (\<lambda>x. x \<noteq> sep) (rev s))]
      else [s])"

text \<open>
  The loader classes live in modules that \<^verbatim>\<open>import_module\<close> finds by name. A loader
  class is modelled by what \<^verbatim>\<open>L(c).build()\<close> does for a component: it raises or returns
  a result. A module maps attribute names to loader classes, and the importer raises or
  returns a module.
\<close>

type_synonym 'r loader_class = "component \<Rightarrow> pyerror + 'r"

type_synonym 'r pymodule = "string \<Rightarrow> 'r loader_class option"

type_synonym 'r importer = "string \<Rightarrow> pyerror + 'r pymodule"

text \<open>\<^verbatim>\<open>Registry.materialize\<close>\<close>

definition materialize :: "'r importer \<Rightarrow> registry \<Rightarrow> string \<Rightarrow> pyerror + 'r" where
  "materialize import_module reg u =
     (case dict_get (components reg) u of
        None \<Rightarrow> Inl (KeyError u)
      | Some c \<Rightarrow>
          (case dict_get (loaders reg) (kind c) of
             None \<Rightarrow> Inl (KeyError (kind c))
           | Some Lpath \<Rightarrow>
               (case rsplit1 CHR ''.'' Lpath of
                  [modpath, clsname] \<Rightarrow>
                    (case import_module modpath of
                       Inl e \<Rightarrow> Inl e
                     | Inr m \<Rightarrow>
                         (case m clsname of
                            None \<Rightarrow> Inl (AttributeError clsname)
                          | Some L \<Rightarrow> L c))
                | _ \<Rightarrow> Inl (ValueError ''not enough values to unpack (expected 2, got 1)''))))"

text \<open>\<^verbatim>\<open>Registry.list_components\<close> and \<^verbatim>\<open>Registry.component_count\<close>\<close>

definition list_components :: "registry \<Rightarrow> string list" where
  "list_components reg = map fst (components reg)"

definition component_count :: "registry \<Rightarrow> nat" where
  "component_count reg = length (components reg)"

text \<open>An entry is well formed when it has both an id and a kind.\<close>

definition well_formed :: "row \<Rightarrow> bool" where
  "well_formed r = (row_id r \<noteq> None \<and> row_kind r \<noteq> None)"

text \<open>
  The store invariant: no two stored components have the same uid, and each component
  is stored under its own uid.
\<close>

definition store_inv :: "registry \<Rightarrow> bool" where
  "store_inv reg =
     (distinct (map (\<lambda>kc. uid (snd kc)) (components reg)) \<and>
      list_all (\<lambda>kc. fst kc = uid (snd kc)) (components reg))"

text \<open>The same invariant, stated on the keys of the store.\<close>

definition keys_ok :: "registry \<Rightarrow> bool" where
  "keys_ok reg =
     (distinct (map fst (components reg)) \<and>
      list_all (\<lambda>kc. fst kc = uid (snd kc)) (components reg))"

section \<open>Self-improvement loop: \<^verbatim>\<open>ankh_aten/self_improve/loop.py\<close>\<close>

text \<open>\<^verbatim>\<open>POLICIES\<close>\<close>

definition min_gate :: real where
  "min_gate = 9777 / 10000"

definition experiments_per_cycle :: nat where
  "experiments_per_cycle = 3"

definition rollforward_threshold :: real where
  "rollforward_threshold = 2 / 1000"

text \<open>
  The loop reads the wall clock and the random number generator. Both are given by the
  environment as sequences: \<open>clock env k\<close> is what the \<open>k\<close>-th call of
  \<^verbatim>\<open>datetime.now(timezone.utc)\<close> returns, \<open>rng env k\<close> what the \<open>k\<close>-th call of
  \<^verbatim>\<open>random.random()\<close> returns; the state counts the calls made so far.
\<close>

record env =
  clock :: "nat \<Rightarrow> real"
  rng :: "nat \<Rightarrow> real"

text \<open>An experiment as \<^verbatim>\<open>plan\<close> produces it, and its result as \<^verbatim>\<open>act\<close> produces it.\<close>

record planned =
  exp_type :: string
  exp_description :: string
  expected_gain :: real

record exp_result =
  res_type :: string
  res_description :: string
  executed :: bool
  actual_gain :: real

record learn_summary =
  r_before :: real
  r_after :: real
  r_gain :: real
  kept :: nat
  rejected :: nat
  sum_improvements :: nat

text \<open>The payload of a log record, one constructor for each phase's dictionary.\<close>

datatype event_data =
    ReflectData real real int real nat
  | PlanData real nat "string list"
  | ActData exp_result
  | LearnData learn_summary

record event =
  ev_timestamp :: real
  ev_cycle :: nat
  ev_type :: string
  ev_data :: event_data

text \<open>
  The object state of \<^verbatim>\<open>SelfImprovementLoop\<close>. The log file is the list of the records
  appended to it, oldest first; appending to the file is taken to succeed.
\<close>

record loop =
  loop_registry :: registry
  log_file :: "event list"
  cycle_count :: nat
  total_experiments :: nat
  improvements :: nat
  clock_reads :: nat
  rng_draws :: nat

text \<open>\<^verbatim>\<open>SelfImprovementLoop.__init__\<close>, with an empty log file.\<close>

definition loop_init :: "registry \<Rightarrow> loop" where
  "loop_init reg =
     \<lparr>loop_registry = reg, log_file = [], cycle_count = 0, total_experiments = 0,
      improvements = 0, clock_reads = 0, rng_draws = 0\<rparr>"

text \<open>\<^verbatim>\<open>datetime.now(timezone.utc)\<close>\<close>

definition now_utc :: "env \<Rightarrow> loop \<Rightarrow> real \<times> loop" where
  "now_utc e s = (clock e (clock_reads s), s\<lparr>clock_reads := Suc (clock_reads s)\<rparr>)"

text \<open>\<^verbatim>\<open>random.uniform(a, b)\<close> is \<^verbatim>\<open>a + (b - a) * random.random()\<close>.\<close>

definition uniform :: "env \<Rightarrow> real \<Rightarrow> real \<Rightarrow> loop \<Rightarrow> real \<times> loop" where
  "uniform e a b s = (a + (b - a) * rng e (rng_draws s), s\<lparr>rng_draws := Suc (rng_draws s)\<rparr>)"

text \<open>\<^verbatim>\<open>snapshot()\<close> called without an argument, as the loop calls it.\<close>

definition snapshot_now :: "env \<Rightarrow> loop \<Rightarrow> snap \<times> loop" where
  "snapshot_now e s = (let (t, s1) = now_utc e s in (snapshot t None, s1))"

text \<open>\<^verbatim>\<open>SelfImprovementLoop.log_event\<close>\<close>

definition log_event :: "env \<Rightarrow> string \<Rightarrow> event_data \<Rightarrow> loop \<Rightarrow> loop" where
  "log_event e event_type d s =
     (let (t, s1) = now_utc e s;
          ev = \<lparr>ev_timestamp = t, ev_cycle = cycle_count s1, ev_type = event_type, ev_data = d\<rparr>
      in s1\<lparr>log_file := log_file s1 @ [ev]\<rparr>)"

text \<open>\<^verbatim>\<open>SelfImprovementLoop.reflect\<close>\<close>

definition reflect :: "env \<Rightarrow> loop \<Rightarrow> snap \<times> loop" where
  "reflect e s =
     (let (sn, s1) = snapshot_now e s;
          s2 = log_event e ''reflect''
                 (ReflectData (snap_r sn) (snap_a sn) (snap_g sn) (snap_d sn)
                    (component_count (loop_registry s1))) s1
      in (sn, s2))"

text \<open>\<^verbatim>\<open>SelfImprovementLoop.plan\<close>\<close>

definition below_gate_experiments :: "planned list" where
  "below_gate_experiments =
     [\<lparr>exp_type = ''expand_manifest'',
       exp_description = ''Add high-value components to manifest'', expected_gain = 3 / 1000\<rparr>,
      \<lparr>exp_type = ''optimize_loaders'',
       exp_description = ''Tune loader performance and caching'', expected_gain = 2 / 1000\<rparr>,
      \<lparr>exp_type = ''refine_metrics'',
       exp_description = ''Adjust phi-scaling parameters'', expected_gain = 1 / 1000\<rparr>]"

definition above_gate_experiments :: "planned list" where
  "above_gate_experiments =
     [\<lparr>exp_type = ''discover_components'',
       exp_description = ''Search for new quantum-coherent components'', expected_gain = 2 / 1000\<rparr>,
      \<lparr>exp_type = ''tune_awareness'',
       exp_description = ''Balance integration vector dimensions'', expected_gain = 1 / 1000\<rparr>,
      \<lparr>exp_type = ''cache_optimization'',
       exp_description = ''Implement component materialization cache'', expected_gain = 1 / 1000\<rparr>]"

definition plan :: "env \<Rightarrow> snap \<Rightarrow> loop \<Rightarrow> planned list \<times> loop" where
  "plan e sn s =
     (let r_current = snap_r sn;
          gate_needed = min_gate - r_current;
          experiments = (if r_current < min_gate then below_gate_experiments
                         else above_gate_experiments);
          experiments = take experiments_per_cycle experiments;
          s1 = log_event e ''plan''
                 (PlanData (max 0 gate_needed) (length experiments) (map exp_type experiments)) s
      in (experiments, s1))"

text \<open>\<^verbatim>\<open>SelfImprovementLoop.act\<close>: the loop over the experiments, then the method.\<close>

fun act_loop :: "env \<Rightarrow> planned list \<Rightarrow> exp_result list \<Rightarrow> loop \<Rightarrow> exp_result list \<times> loop" where
  "act_loop e [] results s = (results, s)"
| "act_loop e (x # xs) results s =
     (let (g, s1) = uniform e 0 (expected_gain x * (15 / 10)) s;
          result = \<lparr>res_type = exp_type x, res_description = exp_description x,
                    executed = True, actual_gain = g\<rparr>;
          s2 = log_event e ''act'' (ActData result) s1
      in act_loop e xs (results @ [result]) s2)"

definition act :: "env \<Rightarrow> planned list \<Rightarrow> loop \<Rightarrow> exp_result list \<times> loop" where
  "act e experiments s = act_loop e experiments [] s"

text \<open>\<^verbatim>\<open>SelfImprovementLoop.learn\<close>: the loop over the results, then the method.\<close>

fun learn_loop :: "exp_result list \<Rightarrow> exp_result list \<Rightarrow> exp_result list \<Rightarrow> loop \<Rightarrow>
    exp_result list \<times> exp_result list \<times> loop" where
  "learn_loop [] kp rj s = (kp, rj, s)"
| "learn_loop (x # xs) kp rj s =
     (if actual_gain x \<ge> rollforward_threshold
      then learn_loop xs (kp @ [x]) rj (s\<lparr>improvements := improvements s + 1\<rparr>)
      else learn_loop xs kp (rj @ [x]) s)"

definition learn :: "env \<Rightarrow> exp_result list \<Rightarrow> snap \<Rightarrow> loop \<Rightarrow> learn_summary \<times> loop" where
  "learn e results snap_before s =
     (let (snap_after, s1) = snapshot_now e s;
          gain = snap_r snap_after - snap_r snap_before;
          (kp, rj, s2) = learn_loop results [] [] s1;
          summ = \<lparr>r_before = snap_r snap_before, r_after = snap_r snap_after, r_gain = gain,
                  kept = length kp, rejected = length rj, sum_improvements = improvements s2\<rparr>;
          s3 = log_event e ''learn'' (LearnData summ) s2
      in (summ, s3))"

text \<open>\<^verbatim>\<open>SelfImprovementLoop.run_cycle\<close>\<close>

record cycle_summary =
  cs_cycle :: nat
  cs_experiments :: nat
  cs_r_gain :: real
  cs_improvements :: nat

definition run_cycle :: "env \<Rightarrow> loop \<Rightarrow> cycle_summary \<times> loop" where
  "run_cycle e s =
     (let s1 = s\<lparr>cycle_count := cycle_count s + 1\<rparr>;
          (snap_before, s2) = reflect e s1;
          (experiments, s3) = plan e snap_before s2;
          (results, s4) = act e experiments s3;
          s5 = s4\<lparr>total_experiments := total_experiments s4 + length results\<rparr>;
          (summ, s6) = learn e results snap_before s5
      in (\<lparr>cs_cycle = cycle_count s6, cs_experiments = length experiments,
           cs_r_gain = r_gain summ, cs_improvements = sum_improvements summ\<rparr>, s6))"

text \<open>
  \<^verbatim>\<open>SelfImprovementLoop.run\<close>: the \<^verbatim>\<open>for i in range(max_cycles)\<close> loop with its
  \<^verbatim>\<open>break\<close>, then the method. A negative \<^verbatim>\<open>max_cycles\<close> gives an empty range.
\<close>

fun run_loop :: "env \<Rightarrow> nat \<Rightarrow> loop \<Rightarrow> loop" where
  "run_loop e 0 s = s"
| "run_loop e (Suc k) s =
     (let (cs, s1) = run_cycle e s;
          (sn, s2) = snapshot_now e s1
      in if snap_r sn \<ge> 999 / 1000 then s2 else run_loop e k s2)"

record run_summary =
  cycles :: nat
  rs_total_experiments :: nat
  rs_improvements :: nat
  final_r_dod :: real

definition run :: "env \<Rightarrow> int \<Rightarrow> loop \<Rightarrow> run_summary \<times> loop" where
  "run e max_cycles s =
     (let s1 = run_loop e (nat max_cycles) s;
          (sn, s2) = snapshot_now e s1
      in (\<lparr>cycles = cycle_count s2, rs_total_experiments = total_experiments s2,
           rs_improvements = improvements s2, final_r_dod = snap_r sn\<rparr>, s2))"

section \<open>Loaders: \<^verbatim>\<open>ankh_aten/loaders\<close>\<close>

text \<open>
  A loader's \<^verbatim>\<open>build\<close> returns a dictionary or raises. The dictionaries are association
  lists from keys to values; \<^verbatim>\<open>conf.get(k, default)\<close> reads the configuration.
\<close>

definition conf_get :: "(string, pyval) pydict \<Rightarrow> string \<Rightarrow> pyval \<Rightarrow> pyval" where
  "conf_get d k dflt = (case dict_get d k of None \<Rightarrow> dflt | Some v \<Rightarrow> v)"

text \<open>Python's truth value of a configuration value, as \<^verbatim>\<open>if not factory_path\<close> tests it.\<close>

fun truthy :: "pyval \<Rightarrow> bool" where
  "truthy VNone = False"
| "truthy (VBool b) = b"
| "truthy (VInt i) = (i \<noteq> 0)"
| "truthy (VStr s) = (s \<noteq> [])"
| "truthy (VList l) = (l \<noteq> [])"
| "truthy (VDict d) = (d \<noteq> [])"

text \<open>\<^verbatim>\<open>str(e)\<close> of a caught exception.\<close>

fun err_text :: "pyerror \<Rightarrow> string" where
  "err_text (KeyError m) = m"
| "err_text (ValueError m) = m"
| "err_text (TypeError m) = m"
| "err_text (AttributeError m) = m"
| "err_text (ImportError m) = m"
| "err_text (OSError m) = m"
| "err_text (YAMLError m) = m"

subsection \<open>\<^verbatim>\<open>yaml_loader.py\<close>\<close>

text \<open>
  The file system and the YAML parser are given by the environment: the working
  directory, which paths exist, what reading a path returns or raises, and what
  \<^verbatim>\<open>yaml.safe_load\<close> returns or raises for a text. Paths are strings;
  \<^verbatim>\<open>Path("")\<close> is the current directory \<^verbatim>\<open>"."\<close>, and \<^verbatim>\<open>Path.cwd() / p\<close> is \<open>p\<close>
  itself when \<open>p\<close> is absolute.
\<close>

record world =
  cwd :: string
  path_exists :: "string \<Rightarrow> bool"
  read_text :: "string \<Rightarrow> pyerror + string"
  safe_load :: "string \<Rightarrow> pyerror + pyval"

definition Path :: "pyval \<Rightarrow> pyerror + string" where
  "Path v =
     (case v of
        VStr s \<Rightarrow> Inr (if s = [] then ''.'' else s)
      | _ \<Rightarrow> Inl (TypeError ''expected str, bytes or os.PathLike object''))"

definition path_join :: "string \<Rightarrow> string \<Rightarrow> string" where
  "path_join base p =
     (if take 1 p = ''/'' then p else if p = ''.'' then base else base @ ''/'' @ p)"

text \<open>
  \<^verbatim>\<open>YamlLoader.build\<close>. Only \<^verbatim>\<open>yaml.YAMLError\<close> is caught by the \<^verbatim>\<open>try\<close>; what
  \<^verbatim>\<open>read_text\<close> raises, and any other exception, leaves the method.
\<close>

definition yaml_build :: "world \<Rightarrow> component \<Rightarrow> pyerror + (string, pyval) pydict" where
  "yaml_build w c =
     (case Path (conf_get (conf c) ''path'' (VStr '''')) of
        Inl e \<Rightarrow> Inl e
      | Inr p0 \<Rightarrow>
          (let yaml_path = (if \<not> path_exists w p0 then path_join (cwd w) p0 else p0)
           in if \<not> path_exists w yaml_path
              then Inr [(''error'', VStr (''YAML file not found: '' @ yaml_path)),
                        (''component'', VStr (uid c)),
                        (''kind'', VStr ''yaml''),
                        (''config'', VDict (conf c))]
              else
                (case read_text w yaml_path of
                   Inl e \<Rightarrow> Inl e
                 | Inr txt \<Rightarrow>
                     (case safe_load w txt of
                        Inr d \<Rightarrow> Inr [(''component'', VStr (uid c)),
                                       (''kind'', VStr ''yaml''),
                                       (''data'', d),
                                       (''source'', VStr yaml_path)]
                      | Inl (YAMLError m) \<Rightarrow>
                          Inr [(''error'', VStr (''YAML parsing error: '' @ m)),
                               (''component'', VStr (uid c)),
                               (''kind'', VStr ''yaml''),
                               (''source'', VStr yaml_path)]
                      | Inl e \<Rightarrow> Inl e))))"

subsection \<open>\<^verbatim>\<open>python_loader.py\<close>\<close>

text \<open>
  A factory is called with keyword arguments only (when \<^verbatim>\<open>args\<close> is a dictionary),
  with positional and keyword arguments (when \<^verbatim>\<open>args\<close> is a list), or with one
  argument and keyword arguments (otherwise); it returns a value or raises.
  A module maps names to factories, and the importer returns a module or raises.
\<close>

datatype call =
    CallKw "(string \<times> pyval) list"
  | CallPos "pyval list" "(string \<times> pyval) list"
  | CallOne pyval "(string \<times> pyval) list"

type_synonym factory = "call \<Rightarrow> pyerror + pyval"

type_synonym fmodule = "string \<Rightarrow> factory option"

type_synonym fimporter = "string \<Rightarrow> pyerror + fmodule"

text \<open>The body of the \<^verbatim>\<open>try\<close> block of \<^verbatim>\<open>PythonLoader.build\<close>, up to the call.\<close>

definition python_try :: "fimporter \<Rightarrow> pyval \<Rightarrow> pyval \<Rightarrow> pyval \<Rightarrow> pyerror + pyval" where
  "python_try import_module factory_path args kwargs =
     (case factory_path of
        VStr s \<Rightarrow>
          (case rsplit1 CHR ''.'' s of
             [modpath, funcname] \<Rightarrow>
               (case import_module modpath of
                  Inl e \<Rightarrow> Inl e
                | Inr m \<Rightarrow>
                    (case m funcname of
                       None \<Rightarrow> Inl (AttributeError funcname)
                     | Some f \<Rightarrow>
                         (case args of
                            VDict a \<Rightarrow> f (CallKw a)
                          | VList l \<Rightarrow>
                              (case kwargs of
                                 VDict k \<Rightarrow> f (CallPos l k)
                               | _ \<Rightarrow> Inl (TypeError ''argument after ** must be a mapping''))
                          | _ \<Rightarrow>
                              (case kwargs of
                                 VDict k \<Rightarrow> f (CallOne args k)
                               | _ \<Rightarrow> Inl (TypeError ''argument after ** must be a mapping'')))))
           | _ \<Rightarrow> Inl (ValueError ''not enough values to unpack (expected 2, got 1)''))
      | _ \<Rightarrow> Inl (AttributeError ''rsplit''))"

text \<open>The exceptions named by \<^verbatim>\<open>except (ImportError, AttributeError, TypeError)\<close>.\<close>

fun caught :: "pyerror \<Rightarrow> bool" where
  "caught (ImportError m) = True"
| "caught (AttributeError m) = True"
| "caught (TypeError m) = True"
| "caught e = False"

text \<open>\<^verbatim>\<open>PythonLoader.build\<close>\<close>

definition python_build :: "fimporter \<Rightarrow> component \<Rightarrow> pyerror + (string, pyval) pydict" where
  "python_build import_module c =
     (let factory_path = conf_get (conf c) ''factory'' (VStr '''');
          args = conf_get (conf c) ''args'' (VDict []);
          kwargs = conf_get (conf c) ''kwargs'' (VDict [])
      in if \<not> truthy factory_path
         then Inr [(''error'', VStr ''No factory path specified''),
                   (''component'', VStr (uid c)),
                   (''kind'', VStr ''python'')]
         else
           (case python_try import_module factory_path args kwargs of
              Inr result \<Rightarrow> Inr [(''component'', VStr (uid c)),
                                  (''kind'', VStr ''python''),
                                  (''factory'', factory_path),
                                  (''result'', result)]
            | Inl e \<Rightarrow>
                if caught e
                then Inr [(''error'', VStr (''Python factory error: '' @ err_text e)),
                          (''component'', VStr (uid c)),
                          (''kind'', VStr ''python''),
                          (''factory'', factory_path)]
                else Inl e))"

section \<open>Verification\<close>

lemma P_gt1: "1 < P" by (simp add: P_def)

lemma powi_ge1: "0 \<le> n \<Longrightarrow> 1 \<le> P powi n"
  using P_gt1 by (simp add: power_int_def one_le_power)

lemma frac_bounds:
  fixes y q :: real
  assumes "0 \<le> y" "1 \<le> q"
  shows "0 \<le> y / q" "y / q \<le> y"
proof -
  show "0 \<le> y / q" using assms by simp
  have "y \<le> y * q" using assms by (simp add: mult_le_cancel_left1)
  then show "y / q \<le> y" using assms by (simp add: divide_le_eq)
qed

lemma ps_closed: 
  assumes "0 \<le> x" "x \<le> 1" "0 \<le> n"
  shows "ps x n = 1 - (1 - x) / (P powi n)"
proof -
  have g: "1 \<le> P powi n" using powi_ge1 assms by simp
  have "0 \<le> (1 - x) / (P powi n)" "(1 - x) / (P powi n) \<le> 1 - x"
    using frac_bounds[of "1 - x" "P powi n"] g assms by simp_all
  then show ?thesis using assms by (simp add: ps_def Let_def min_def max_def)
qed

lemma ps_range: "0 \<le> ps x n \<and> ps x n \<le> 1"
  by (simp add: ps_def Let_def)

lemma rd_range:
  assumes "0 \<le> d" "d \<le> 1"
  shows "0 \<le> rd p t c d \<and> rd p t c d \<le> 1"
proof -
  let ?a = "ps (p powr (5 / 10)) 3" and ?b = "ps (t powr (3 / 10)) 3" and ?c = "ps (c powr (2 / 10)) 3"
  have a: "0 \<le> ?a" "?a \<le> 1" and b: "0 \<le> ?b" "?b \<le> 1" and c: "0 \<le> ?c" "?c \<le> 1"
    using ps_range by simp_all
  have ab: "0 \<le> ?a * ?b" "?a * ?b \<le> 1" using a b by (simp_all add: mult_le_one)
  then have abc: "0 \<le> ?a * ?b * ?c" "?a * ?b * ?c \<le> 1" using c by (simp_all add: mult_le_one)
  have d: "0 \<le> 1 - d" "1 - d \<le> 1" using assms by simp_all
  have "0 \<le> ?a * ?b * ?c * (1 - d)" "?a * ?b * ?c * (1 - d) \<le> 1"
    using abc d by (simp_all add: mult_le_one)
  then show ?thesis by (simp add: rd_def S_def)
qed

text \<open>
  Claim C5. For progress, trust, coherence and decay in \<open>[0,1]\<close>, \<open>rd\<close> is the product
  of the three compressed powers and \<open>1 - d\<close>, and its value lies in \<open>[0,1]\<close>.
\<close>

theorem rd_product_bounded:
  assumes "0 \<le> p" "p \<le> 1" "0 \<le> t" "t \<le> 1" "0 \<le> c" "c \<le> 1" "0 \<le> d" "d \<le> 1"
  shows "rd p t c d = ps (p powr (5 / 10)) 3 * ps (t powr (3 / 10)) 3 * ps (c powr (2 / 10)) 3 * (1 - d)
         \<and> 0 \<le> rd p t c d \<and> rd p t c d \<le> 1"
  using rd_range[OF assms(7,8)] by (simp add: rd_def S_def)

theorem rd_product_bounded_witness:
  "rd (1 / 2) (1 / 2) (1 / 2) (1 / 2) = ps ((1 / 2) powr (5 / 10)) 3 * ps ((1 / 2) powr (3 / 10)) 3 * ps ((1 / 2) powr (2 / 10)) 3 * (1 - 1 / 2)
         \<and> 0 \<le> rd (1 / 2) (1 / 2) (1 / 2) (1 / 2) \<and> rd (1 / 2) (1 / 2) (1 / 2) (1 / 2) \<le> 1"
  using rd_product_bounded [of "1 / 2" "1 / 2" "1 / 2" "1 / 2"] by simp

lemma dict_set_keys:
  "map fst (dict_set k v d) = (if k \<in> set (map fst d) then map fst d else map fst d @ [k])"
  by (induction d) (auto simp: rev_image_eqI)

lemma dict_set_key_set: "set (map fst (dict_set k v d)) = insert k (set (map fst d))"
  by (auto simp: dict_set_keys)

lemma dict_set_distinct: "distinct (map fst d) \<Longrightarrow> distinct (map fst (dict_set k v d))"
  by (simp add: dict_set_keys)

lemma dict_set_map_of: "map_of (dict_set k v d) = (map_of d)(k \<mapsto> v)"
  by (induction d) auto

lemma dict_set_length:
  "length (dict_set k v d) = (if k \<in> set (map fst d) then length d else Suc (length d))"
  using arg_cong[OF dict_set_keys[of k v d], of length] by (simp split: if_splits)

lemma dict_set_all:
  "list_all Q d \<Longrightarrow> Q (k, v) \<Longrightarrow> list_all Q (dict_set k v d)"
  by (induction d) auto

lemma register_rows_append:
  "register_rows (xs @ ys) reg =
     (case register_rows xs reg of (None, reg') \<Rightarrow> register_rows ys reg' | (Some e, reg') \<Rightarrow> (Some e, reg'))"
  by (induction xs arbitrary: reg) (auto simp: Let_def split: option.splits)

lemma register_rows_wf:
  "\<forall>r\<in>set rows. well_formed r \<Longrightarrow> fst (register_rows rows reg) = None"
  by (induction rows arbitrary: reg) (auto simp: Let_def well_formed_def split: option.splits)

lemma register_rows_bad:
  "\<not> well_formed bad \<Longrightarrow>
   register_rows (bad # post) reg = (Some (KeyError (if row_id bad = None then ''id'' else ''kind'')), reg)"
  by (auto simp: well_formed_def split: option.splits)

lemma register_rows_loaders: "loaders (snd (register_rows rows reg)) = loaders reg"
  by (induction rows arbitrary: reg) (auto simp: Let_def split: option.splits)

lemma register_rows_keys:
  "\<forall>r\<in>set rows. well_formed r \<Longrightarrow>
   set (list_components (snd (register_rows rows reg))) =
     set (list_components reg) \<union> (\<lambda>r. the (row_id r)) ` set rows"
proof (induction rows arbitrary: reg)
  case Nil
  then show ?case by simp
next
  case (Cons r rs)
  then obtain i k where ik: "row_id r = Some i" "row_kind r = Some k"
    by (auto simp: well_formed_def)
  have rs: "\<forall>r\<in>set rs. well_formed r" using Cons.prems by simp
  show ?case using Cons.IH[OF rs] ik
    by (simp add: Let_def list_components_def dict_set_key_set del: set_map)
qed

lemma register_rows_keys_mono:
  "set (list_components reg) \<subseteq> set (list_components (snd (register_rows rows reg)))"
proof (induction rows arbitrary: reg)
  case Nil
  then show ?case by simp
next
  case (Cons r rs)
  show ?case
  proof (cases "well_formed r")
    case False
    then show ?thesis using register_rows_bad[OF False] by simp
  next
    case True
    then obtain i k where ik: "row_id r = Some i" "row_kind r = Some k"
      by (auto simp: well_formed_def)
    let ?reg = "reg\<lparr>components := dict_set i \<lparr>uid = i, kind = k, conf = (case row_config r of None \<Rightarrow> [] | Some cf \<Rightarrow> cf)\<rparr> (components reg)\<rparr>"
    have "set (list_components reg) \<subseteq> set (list_components ?reg)"
      by (simp add: list_components_def dict_set_key_set subset_insertI del: set_map)
    also have "\<dots> \<subseteq> set (list_components (snd (register_rows rs ?reg)))" by (rule Cons.IH)
    finally show ?thesis using ik by (simp add: Let_def)
  qed
qed

lemma store_inv_keys_ok: "store_inv reg = keys_ok reg"
proof -
  have "list_all (\<lambda>kc. fst kc = uid (snd kc)) d \<Longrightarrow> map (\<lambda>kc. uid (snd kc)) d = map fst d" for d :: "(string, component) pydict"
    by (induction d) auto
  then show ?thesis unfolding store_inv_def keys_ok_def by metis
qed

lemma keys_ok_set:
  "keys_ok reg \<Longrightarrow> keys_ok (reg\<lparr>components := dict_set i \<lparr>uid = i, kind = k, conf = cf\<rparr> (components reg)\<rparr>)"
  unfolding keys_ok_def by (simp add: dict_set_distinct dict_set_all)

lemma register_rows_keys_ok:
  "keys_ok reg \<Longrightarrow> keys_ok (snd (register_rows rows reg))"
proof (induction rows arbitrary: reg)
  case Nil
  then show ?case by simp
next
  case (Cons r rs)
  show ?case
  proof (cases "well_formed r")
    case False
    then show ?thesis using register_rows_bad[OF False] Cons.prems by simp
  next
    case True
    then obtain i k where ik: "row_id r = Some i" "row_kind r = Some k"
      by (auto simp: well_formed_def)
    show ?thesis using ik Cons.IH[OF keys_ok_set[OF Cons.prems]] by (simp add: Let_def)
  qed
qed

lemma register_rows_inv: "store_inv reg \<Longrightarrow> store_inv (snd (register_rows rows reg))"
  by (simp add: store_inv_keys_ok register_rows_keys_ok)

lemma use_inv: "store_inv reg \<Longrightarrow> store_inv (use k l reg)"
  by (simp add: store_inv_def use_def)

lemma init_inv: "store_inv Registry_init"
  by (simp add: store_inv_def Registry_init_def)

lemma count_card:
  assumes "store_inv reg" shows "component_count reg = card (set (list_components reg))"
proof -
  have "distinct (map fst (components reg))" using assms by (simp add: store_inv_keys_ok keys_ok_def)
  then have "card (set (map fst (components reg))) = length (map fst (components reg))"
    by (rule distinct_card)
  then show ?thesis by (simp add: component_count_def list_components_def del: set_map)
qed

text \<open>
  Claim C6. \<open>materialize\<close> on a uid with no registered component raises \<open>KeyError\<close> of
  the uid; on a registered uid whose kind has no bound loader it raises \<open>KeyError\<close> of the
  kind; and when the bound loader path resolves to a loader class, the result is that
  loader's \<open>build\<close> result for the component, unchanged.
\<close>

theorem materialize_dispatch:
  "(dict_get (components reg) u = None \<longrightarrow> materialize imp reg u = Inl (KeyError u)) \<and>
   (\<forall>c. dict_get (components reg) u = Some c \<and> dict_get (loaders reg) (kind c) = None \<longrightarrow>
        materialize imp reg u = Inl (KeyError (kind c))) \<and>
   (\<forall>c lpath modpath clsname m L.
        dict_get (components reg) u = Some c \<and> dict_get (loaders reg) (kind c) = Some lpath \<and>
        rsplit1 CHR ''.'' lpath = [modpath, clsname] \<and> imp modpath = Inr m \<and> m clsname = Some L \<longrightarrow>
        materialize imp reg u = L c)"
  by (simp add: materialize_def)

theorem materialize_dispatch_witness:
  "materialize (\<lambda>m. if m = ''pkg.mod'' then Inr (\<lambda>n. if n = ''Ld'' then Some (\<lambda>c. Inr (uid c @ ''!'')) else None) else Inl (ImportError m))
     (use ''yaml'' ''pkg.mod.Ld'' (snd (register_manifest (Some [\<lparr>row_id = Some ''a'', row_kind = Some ''yaml'', row_config = None\<rparr>, \<lparr>row_id = Some ''b'', row_kind = Some ''http'', row_config = None\<rparr>]) Registry_init))) ''zz''
     = Inl (KeyError ''zz'') \<and>
   materialize (\<lambda>m. if m = ''pkg.mod'' then Inr (\<lambda>n. if n = ''Ld'' then Some (\<lambda>c. Inr (uid c @ ''!'')) else None) else Inl (ImportError m))
     (use ''yaml'' ''pkg.mod.Ld'' (snd (register_manifest (Some [\<lparr>row_id = Some ''a'', row_kind = Some ''yaml'', row_config = None\<rparr>, \<lparr>row_id = Some ''b'', row_kind = Some ''http'', row_config = None\<rparr>]) Registry_init))) ''b''
     = Inl (KeyError ''http'') \<and>
   materialize (\<lambda>m. if m = ''pkg.mod'' then Inr (\<lambda>n. if n = ''Ld'' then Some (\<lambda>c. Inr (uid c @ ''!'')) else None) else Inl (ImportError m))
     (use ''yaml'' ''pkg.mod.Ld'' (snd (register_manifest (Some [\<lparr>row_id = Some ''a'', row_kind = Some ''yaml'', row_config = None\<rparr>, \<lparr>row_id = Some ''b'', row_kind = Some ''http'', row_config = None\<rparr>]) Registry_init))) ''a''
     = Inr ''a!''"
proof -
  let ?imp = "\<lambda>m. if m = ''pkg.mod'' then Inr (\<lambda>n. if n = ''Ld'' then Some (\<lambda>c::component. Inr (uid c @ ''!'')) else None) else Inl (ImportError m)"
  let ?reg = "use ''yaml'' ''pkg.mod.Ld'' (snd (register_manifest (Some [\<lparr>row_id = Some ''a'', row_kind = Some ''yaml'', row_config = None\<rparr>, \<lparr>row_id = Some ''b'', row_kind = Some ''http'', row_config = None\<rparr>]) Registry_init))"
  have reg: "?reg = \<lparr>components = [(''a'', \<lparr>uid = ''a'', kind = ''yaml'', conf = []\<rparr>), (''b'', \<lparr>uid = ''b'', kind = ''http'', conf = []\<rparr>)], loaders = [(''yaml'', ''pkg.mod.Ld'')]\<rparr>"
    by (simp add: use_def register_manifest_def Registry_init_def)
  have sp: "rsplit1 CHR ''.'' ''pkg.mod.Ld'' = [''pkg.mod'', ''Ld'']" by (simp add: rsplit1_def)
  have a: "materialize ?imp ?reg ''zz'' = Inl (KeyError ''zz'')"
    using materialize_dispatch [of ?reg "''zz''" ?imp] unfolding reg by (simp add: dict_get_def)
  have b: "materialize ?imp ?reg ''b'' = Inl (KeyError ''http'')"
    using materialize_dispatch [of ?reg "''b''" ?imp] unfolding reg by (simp add: dict_get_def)
  have c: "materialize ?imp ?reg ''a'' = Inr ''a!''"
    using materialize_dispatch [of ?reg "''a''" ?imp] sp unfolding reg by (simp add: dict_get_def)
  show ?thesis using a b c by blast
qed

text \<open>
  Claim C7, as amended. When the entries before the first malformed one are well formed,
  \<open>register_manifest\<close> raises \<open>KeyError\<close> of the missing key (\<open>id\<close> if it is absent,
  else \<open>kind\<close>), the registry is left as registering the earlier entries alone leaves
  it, and every id that was registered before the call or by an earlier entry is in the
  store after the failure.
\<close>

theorem register_manifest_partial:
  assumes "\<forall>r\<in>set pre. well_formed r" and "\<not> well_formed bad"
  shows "register_manifest (Some (pre @ bad # post)) reg =
           (Some (KeyError (if row_id bad = None then ''id'' else ''kind'')),
            snd (register_manifest (Some pre) reg)) \<and>
         fst (register_manifest (Some pre) reg) = None \<and>
         (\<forall>u\<in>set (list_components reg).
            u \<in> set (list_components (snd (register_manifest (Some (pre @ bad # post)) reg)))) \<and>
         (\<forall>r\<in>set pre.
            the (row_id r) \<in> set (list_components (snd (register_manifest (Some (pre @ bad # post)) reg))))"
proof -
  obtain reg' where pre: "register_rows pre reg = (None, reg')"
    using register_rows_wf[OF assms(1), of reg] by (cases "register_rows pre reg") auto
  have whole: "register_rows (pre @ bad # post) reg =
      (Some (KeyError (if row_id bad = None then ''id'' else ''kind'')), reg')"
    using pre register_rows_bad[OF assms(2)] by (simp add: register_rows_append)
  have keys: "set (list_components reg') = set (list_components reg) \<union> (\<lambda>r. the (row_id r)) ` set pre"
    using register_rows_keys[OF assms(1), of reg] pre by simp
  show ?thesis using pre whole keys by (auto simp: register_manifest_def)
qed

theorem register_manifest_partial_witness:
  "register_manifest (Some ([\<lparr>row_id = Some ''a'', row_kind = Some ''yaml'', row_config = None\<rparr>] @
       \<lparr>row_id = Some ''b'', row_kind = None, row_config = None\<rparr> #
       [\<lparr>row_id = Some ''c'', row_kind = Some ''http'', row_config = None\<rparr>])) Registry_init =
     (Some (KeyError ''kind''),
      \<lparr>components = [(''a'', \<lparr>uid = ''a'', kind = ''yaml'', conf = []\<rparr>)], loaders = []\<rparr>)"
proof -
  let ?pre = "[\<lparr>row_id = Some ''a'', row_kind = Some ''yaml'', row_config = None\<rparr>]"
  let ?bad = "\<lparr>row_id = Some ''b'', row_kind = None, row_config = None\<rparr>"
  have h1: "\<forall>r\<in>set ?pre. well_formed r" by (simp add: well_formed_def)
  have h2: "\<not> well_formed ?bad" by (simp add: well_formed_def)
  show ?thesis
    using register_manifest_partial [OF h1 h2, of "[\<lparr>row_id = Some ''c'', row_kind = Some ''http'', row_config = None\<rparr>]" Registry_init]
    by (simp add: register_manifest_def Registry_init_def)
qed

text \<open>
  Claim C7 as stated says that the error reports the offending entry. Two manifests whose
  offending entries differ in content and in position fail with the same error value:
  it names the missing key only.
\<close>

theorem register_manifest_error_counterexample:
  "fst (register_manifest (Some [\<lparr>row_id = None, row_kind = Some ''yaml'', row_config = None\<rparr>]) Registry_init)
     = Some (KeyError ''id'') \<and>
   fst (register_manifest (Some [\<lparr>row_id = Some ''a'', row_kind = Some ''http'', row_config = None\<rparr>,
                                 \<lparr>row_id = None, row_kind = Some ''http'', row_config = Some []\<rparr>]) Registry_init)
     = Some (KeyError ''id'')"
  by (simp add: register_manifest_def Registry_init_def)

text \<open>
  Claim C8 as stated says that \<open>N\<close> well-formed entries give a count of \<open>N\<close>: two
  well-formed entries with the same id give a count of 1.
\<close>

theorem register_manifest_count_counterexample:
  "well_formed \<lparr>row_id = Some ''a'', row_kind = Some ''yaml'', row_config = None\<rparr> \<and>
   well_formed \<lparr>row_id = Some ''a'', row_kind = Some ''http'', row_config = None\<rparr> \<and>
   component_count (snd (register_manifest
     (Some [\<lparr>row_id = Some ''a'', row_kind = Some ''yaml'', row_config = None\<rparr>,
            \<lparr>row_id = Some ''a'', row_kind = Some ''http'', row_config = None\<rparr>]) Registry_init)) = 1"
  by (simp add: register_manifest_def Registry_init_def component_count_def well_formed_def)

lemma count_after_rows:
  assumes "\<forall>r\<in>set rows. well_formed r" "store_inv reg"
  shows "component_count (snd (register_rows rows reg)) =
         card (set (list_components reg) \<union> (\<lambda>r. the (row_id r)) ` set rows)"
  using count_card[OF register_rows_inv[OF assms(2), of rows]] register_rows_keys[OF assms(1), of reg]
  by simp

text \<open>
  Claim C8, as amended. Registering well-formed entries into an empty store succeeds and
  gives a count equal to the number of distinct ids among them, which is the number of
  entries when the ids are pairwise distinct; registering an entry whose id is already
  stored leaves the count unchanged and replaces the stored component; and the store
  invariant (no two components with the same uid) holds initially and is kept by
  \<open>register_manifest\<close>, also when it fails, and by \<open>use\<close>.
\<close>

theorem register_manifest_count_amended:
  "((\<forall>r\<in>set rows. well_formed r) \<longrightarrow>
      fst (register_manifest (Some rows) Registry_init) = None \<and>
      component_count (snd (register_manifest (Some rows) Registry_init)) =
        card ((\<lambda>r. the (row_id r)) ` set rows) \<and>
      (distinct (map row_id rows) \<longrightarrow>
         component_count (snd (register_manifest (Some rows) Registry_init)) = length rows)) \<and>
   (well_formed r \<and> store_inv reg \<and> the (row_id r) \<in> set (list_components reg) \<longrightarrow>
      component_count (snd (register_manifest (Some [r]) reg)) = component_count reg \<and>
      dict_get (components (snd (register_manifest (Some [r]) reg))) (the (row_id r)) =
        Some \<lparr>uid = the (row_id r), kind = the (row_kind r),
              conf = (case row_config r of None \<Rightarrow> [] | Some cf \<Rightarrow> cf)\<rparr>) \<and>
   store_inv Registry_init \<and>
   (store_inv reg \<longrightarrow> store_inv (snd (register_manifest data reg)) \<and> store_inv (use k l reg))"
proof -
  have A: "fst (register_manifest (Some rows) Registry_init) = None \<and>
      component_count (snd (register_manifest (Some rows) Registry_init)) =
        card ((\<lambda>r. the (row_id r)) ` set rows) \<and>
      (distinct (map row_id rows) \<longrightarrow>
         component_count (snd (register_manifest (Some rows) Registry_init)) = length rows)"
    if wf: "\<forall>r\<in>set rows. well_formed r"
  proof -
    have n: "fst (register_rows rows Registry_init) = None" by (rule register_rows_wf[OF wf])
    have "set (list_components Registry_init) = {}" by (simp add: list_components_def Registry_init_def)
    then have c: "component_count (snd (register_rows rows Registry_init)) =
        card ((\<lambda>r. the (row_id r)) ` set rows)"
      using count_after_rows[OF wf init_inv] by simp
    have d: "card ((\<lambda>r. the (row_id r)) ` set rows) = length rows" if dist: "distinct (map row_id rows)"
    proof -
      have inj: "inj_on row_id (set rows)" and dr: "distinct rows"
        using dist by (simp_all add: distinct_map)
      have "inj_on (\<lambda>r. the (row_id r)) (set rows)"
      proof (rule inj_onI)
        fix x y assume xy: "x \<in> set rows" "y \<in> set rows" "the (row_id x) = the (row_id y)"
        then have "row_id x \<noteq> None" "row_id y \<noteq> None" using wf by (auto simp: well_formed_def)
        then have "row_id x = row_id y" using xy(3) by auto
        then show "x = y" using inj xy by (auto dest: inj_onD)
      qed
      then have "card ((\<lambda>r. the (row_id r)) ` set rows) = card (set rows)" by (rule card_image)
      then show ?thesis using dr by (simp add: distinct_card)
    qed
    show ?thesis using n c d by (simp add: register_manifest_def)
  qed
  have B: "component_count (snd (register_manifest (Some [r]) reg)) = component_count reg \<and>
      dict_get (components (snd (register_manifest (Some [r]) reg))) (the (row_id r)) =
        Some \<lparr>uid = the (row_id r), kind = the (row_kind r),
              conf = (case row_config r of None \<Rightarrow> [] | Some cf \<Rightarrow> cf)\<rparr>"
    if h: "well_formed r \<and> store_inv reg \<and> the (row_id r) \<in> set (list_components reg)"
  proof -
    obtain i kk where ik: "row_id r = Some i" "row_kind r = Some kk"
      using h by (auto simp: well_formed_def)
    have "i \<in> set (map fst (components reg))" using h ik by (simp add: list_components_def)
    then show ?thesis using ik
      by (simp add: register_manifest_def Let_def component_count_def dict_set_length
          dict_get_def dict_set_map_of del: set_map)
  qed
  have C: "store_inv (snd (register_manifest data reg)) \<and> store_inv (use k l reg)" if "store_inv reg"
    using that register_rows_inv use_inv by (simp add: register_manifest_def)
  show ?thesis using A B C init_inv by blast
qed

theorem register_manifest_count_amended_witness:
  "component_count (snd (register_manifest
      (Some [\<lparr>row_id = Some ''a'', row_kind = Some ''yaml'', row_config = None\<rparr>,
             \<lparr>row_id = Some ''b'', row_kind = Some ''http'', row_config = None\<rparr>]) Registry_init)) = 2 \<and>
   component_count (snd (register_manifest
      (Some [\<lparr>row_id = Some ''a'', row_kind = Some ''python'', row_config = None\<rparr>])
      \<lparr>components = [(''a'', \<lparr>uid = ''a'', kind = ''yaml'', conf = []\<rparr>),
                      (''b'', \<lparr>uid = ''b'', kind = ''http'', conf = []\<rparr>)], loaders = []\<rparr>)) = 2 \<and>
   dict_get (components (snd (register_manifest
      (Some [\<lparr>row_id = Some ''a'', row_kind = Some ''python'', row_config = None\<rparr>])
      \<lparr>components = [(''a'', \<lparr>uid = ''a'', kind = ''yaml'', conf = []\<rparr>),
                      (''b'', \<lparr>uid = ''b'', kind = ''http'', conf = []\<rparr>)], loaders = []\<rparr>))) ''a'' =
     Some \<lparr>uid = ''a'', kind = ''python'', conf = []\<rparr> \<and>
   store_inv (snd (register_manifest
      (Some [\<lparr>row_id = Some ''a'', row_kind = Some ''python'', row_config = None\<rparr>])
      \<lparr>components = [(''a'', \<lparr>uid = ''a'', kind = ''yaml'', conf = []\<rparr>),
                      (''b'', \<lparr>uid = ''b'', kind = ''http'', conf = []\<rparr>)], loaders = []\<rparr>))"
proof -
  let ?rows = "[\<lparr>row_id = Some ''a'', row_kind = Some ''yaml'', row_config = None\<rparr>,
             \<lparr>row_id = Some ''b'', row_kind = Some ''http'', row_config = None\<rparr>]"
  let ?r = "\<lparr>row_id = Some ''a'', row_kind = Some ''python'', row_config = None\<rparr>"
  let ?reg = "\<lparr>components = [(''a'', \<lparr>uid = ''a'', kind = ''yaml'', conf = []\<rparr>),
                      (''b'', \<lparr>uid = ''b'', kind = ''http'', conf = []\<rparr>)], loaders = []\<rparr>"
  have h1: "\<forall>r\<in>set ?rows. well_formed r" by (simp add: well_formed_def)
  have h2: "distinct (map row_id ?rows)" by simp
  have h3: "well_formed ?r \<and> store_inv ?reg \<and> the (row_id ?r) \<in> set (list_components ?reg)"
    by (simp add: well_formed_def store_inv_def list_components_def)
  note t = register_manifest_count_amended [of ?rows ?r ?reg "Some [?r]" "''yaml''" "''pkg.Ld''"]
  have a: "component_count (snd (register_manifest (Some ?rows) Registry_init)) = length ?rows"
    using t h1 h2 by blast
  have b: "component_count (snd (register_manifest (Some [?r]) ?reg)) = component_count ?reg"
    using t h3 by blast
  have c: "dict_get (components (snd (register_manifest (Some [?r]) ?reg))) (the (row_id ?r)) =
        Some \<lparr>uid = the (row_id ?r), kind = the (row_kind ?r),
              conf = (case row_config ?r of None \<Rightarrow> [] | Some cf \<Rightarrow> cf)\<rparr>"
    using t h3 by blast
  have d: "store_inv (snd (register_manifest (Some [?r]) ?reg))"
    using t h3 by blast
  have a': "component_count (snd (register_manifest (Some ?rows) Registry_init)) = 2"
    using a by simp
  have b': "component_count (snd (register_manifest (Some [?r]) ?reg)) = 2"
    using b by (simp add: component_count_def)
  have c': "dict_get (components (snd (register_manifest (Some [?r]) ?reg))) ''a'' =
     Some \<lparr>uid = ''a'', kind = ''python'', conf = []\<rparr>"
    using c by simp
  show ?thesis using a' b' c' d by blast
qed

lemma awareness_value:
  "real_of_int (sum_list I) / real_of_int (100 * int (length I)) = 1085 / 1200"
  by (simp add: I_def)

lemma snapshot_r: "snap_r (snapshot c n) = rd (1085 / 1200) rd_default_t rd_default_c rd_default_d"
  by (simp add: snapshot_def Let_def I_def)

lemma sqrt_awareness: "(1085 / 1200 :: real) powr (5 / 10) < 951 / 1000"
proof -
  have e: "(5 / 10 :: real) = 1 / 2" by simp
  have "(1085 / 1200 :: real) < (951 / 1000)\<^sup>2" by (simp add: power2_eq_square)
  then have "sqrt (1085 / 1200) < 951 / 1000" by (intro real_less_lsqrt) simp_all
  then show ?thesis unfolding e by (simp add: powr_half_sqrt)
qed

lemma P_cube: "P powi 3 \<le> 43 / 10"
proof -
  have "P \<le> 162 / 100" by (simp add: P_def)
  moreover have "0 \<le> P" by (simp add: P_def)
  ultimately have "P ^ 3 \<le> (162 / 100) ^ 3" by (rule power_mono)
  also have "\<dots> \<le> (43 / 10 :: real)" by (simp add: power3_eq_cube)
  finally show ?thesis by simp
qed

lemma ps_awareness: "ps ((1085 / 1200) powr (5 / 10)) 3 < 989 / 1000"
proof -
  let ?x = "(1085 / 1200 :: real) powr (5 / 10)"
  have x0: "0 \<le> ?x" by simp
  have x1: "?x < 951 / 1000" by (rule sqrt_awareness)
  have q1: "1 \<le> P powi 3" by (rule powi_ge1) simp
  define q where "q = (1 - ?x) / (P powi 3)"
  have cl: "ps ?x 3 = 1 - q"
    unfolding q_def using x0 x1 by (intro ps_closed) simp_all
  have "49 / 1000 / (43 / 10) \<le> (1 - ?x) / (43 / 10)"
    using x1 by (intro divide_right_mono) simp_all
  also have "\<dots> \<le> (1 - ?x) / (P powi 3)"
  proof (rule divide_left_mono)
    show "P powi 3 \<le> 43 / 10" by (rule P_cube)
    show "0 \<le> 1 - ?x" using x1 by simp
    have qp: "0 < P powi 3" using q1 by linarith
    show "0 < 43 / 10 * (P powi 3)" by (rule mult_pos_pos) (simp, rule qp)
  qed
  finally have "49 / 1000 / (43 / 10) \<le> q" unfolding q_def .
  moreover have "(11 / 1000 :: real) < 49 / 1000 / (43 / 10)" by simp
  ultimately have "11 / 1000 < q" by (rule less_le_trans[rotated])
  then show ?thesis using cl by linarith
qed

lemma prod_le_first:
  fixes a b :: real
  assumes "0 \<le> a" "0 \<le> b" "b \<le> 1"
  shows "0 \<le> a * b" "a * b \<le> a"
  using assms by (simp_all add: mult_left_le)

lemma rd_fixed_upper:
  "rd (1085 / 1200) rd_default_t rd_default_c rd_default_d < 999 / 1000"
proof -
  let ?a = "ps ((1085 / 1200) powr (5 / 10)) 3"
  let ?b = "ps (rd_default_t powr (3 / 10)) 3"
  let ?c = "ps (rd_default_c powr (2 / 10)) 3"
  let ?d = "1 - rd_default_d"
  have a: "0 \<le> ?a" and b: "0 \<le> ?b" "?b \<le> 1" and c: "0 \<le> ?c" "?c \<le> 1"
    using ps_range by simp_all
  have d: "0 \<le> ?d" "?d \<le> 1" by (simp_all add: rd_default_d_def)
  have ab: "0 \<le> ?a * ?b" "?a * ?b \<le> ?a" using prod_le_first[OF a b] by simp_all
  have abc: "0 \<le> ?a * ?b * ?c" "?a * ?b * ?c \<le> ?a * ?b" using prod_le_first[OF ab(1) c] by simp_all
  have abcd: "?a * ?b * ?c * ?d \<le> ?a * ?b * ?c" using prod_le_first[OF abc(1) d] by simp
  have "?a * ?b * ?c * ?d \<le> ?a" using ab abc abcd by linarith
  then have "?a * ?b * ?c * ?d < 999 / 1000" using ps_awareness by linarith
  then show ?thesis by (simp add: rd_def S_def)
qed

lemma snapshot_r_upper: "snap_r (snapshot c n) < 999 / 1000"
  using rd_fixed_upper by (simp add: snapshot_r)

text \<open>
  Claim C4. For every clock reading and every time argument, the awareness field of
  \<open>snapshot\<close> is the mean of the awareness vector \<open>I\<close> (the ratio \<open>mean / 100\<close> scaled back
  to a percentage), the days field is not negative, and the gate field is \<open>1\<close> exactly
  when the fitness field is at least \<open>TH = 0.9777\<close>; a fitness equal to the threshold
  opens the gate.
\<close>

theorem snapshot_fields:
  "snap_a (snapshot c n) = real_of_int (sum_list I) / real (length I) / 100 * 100 \<and>
   snap_a (snapshot c n) = real_of_int (sum_list I) / real (length I) \<and>
   0 \<le> snap_d (snapshot c n) \<and>
   snap_g (snapshot c n) = gate_of (snap_r (snapshot c n)) \<and>
   (gate_of r = 1) = (r \<ge> TH) \<and> (gate_of r = 0) = (r < TH) \<and>
   gate_of (9777 / 10000) = 1"
  by (simp add: snapshot_def Let_def gate_of_def TH_def I_def)

lemma now_utc_frame:
  "log_file (snd (now_utc e s)) = log_file s" "cycle_count (snd (now_utc e s)) = cycle_count s"
  "total_experiments (snd (now_utc e s)) = total_experiments s"
  by (simp_all add: now_utc_def)

lemma snapshot_now_frame:
  "log_file (snd (snapshot_now e s)) = log_file s"
  "cycle_count (snd (snapshot_now e s)) = cycle_count s"
  "total_experiments (snd (snapshot_now e s)) = total_experiments s"
  by (simp_all add: snapshot_now_def now_utc_def)

lemma snapshot_now_r: "snap_r (fst (snapshot_now e s)) = snap_r (snapshot 0 None)"
  by (simp add: snapshot_now_def now_utc_def snapshot_r)

lemma log_event_frame:
  "log_file (log_event e ty d s) =
     log_file s @ [\<lparr>ev_timestamp = clock e (clock_reads s), ev_cycle = cycle_count s, ev_type = ty, ev_data = d\<rparr>]"
  "cycle_count (log_event e ty d s) = cycle_count s"
  "total_experiments (log_event e ty d s) = total_experiments s"
  by (simp_all add: log_event_def now_utc_def)

lemma uniform_frame:
  "log_file (snd (uniform e a b s)) = log_file s" "cycle_count (snd (uniform e a b s)) = cycle_count s"
  "total_experiments (snd (uniform e a b s)) = total_experiments s"
  by (simp_all add: uniform_def)

lemma reflect_frame:
  "\<exists>ev. log_file (snd (reflect e s)) = log_file s @ [ev] \<and> ev_type ev = ''reflect'' \<and> ev_cycle ev = cycle_count s"
  "cycle_count (snd (reflect e s)) = cycle_count s"
  "total_experiments (snd (reflect e s)) = total_experiments s"
  by (simp_all add: reflect_def Let_def split_beta log_event_frame snapshot_now_frame)

lemma plan_length: "length (fst (plan e sn s)) = 3"
  by (simp add: plan_def Let_def experiments_per_cycle_def below_gate_experiments_def
      above_gate_experiments_def)

lemma plan_frame:
  "\<exists>ev. log_file (snd (plan e sn s)) = log_file s @ [ev] \<and> ev_type ev = ''plan'' \<and> ev_cycle ev = cycle_count s"
  "cycle_count (snd (plan e sn s)) = cycle_count s"
  "total_experiments (snd (plan e sn s)) = total_experiments s"
  by (simp_all add: plan_def Let_def log_event_frame)

lemma act_loop_frame:
  "length (fst (act_loop e xs rs s)) = length rs + length xs \<and>
   cycle_count (snd (act_loop e xs rs s)) = cycle_count s \<and>
   total_experiments (snd (act_loop e xs rs s)) = total_experiments s \<and>
   (\<exists>evs. log_file (snd (act_loop e xs rs s)) = log_file s @ evs \<and>
      map ev_type evs = replicate (length xs) ''act'' \<and>
      map ev_cycle evs = replicate (length xs) (cycle_count s))"
proof (induction xs arbitrary: rs s)
  case Nil
  then show ?case by simp
next
  case (Cons x xs)
  let ?s1 = "snd (uniform e 0 (expected_gain x * (15 / 10)) s)"
  let ?res = "\<lparr>res_type = exp_type x, res_description = exp_description x, executed = True,
      actual_gain = fst (uniform e 0 (expected_gain x * (15 / 10)) s)\<rparr>"
  let ?s2 = "log_event e ''act'' (ActData ?res) ?s1"
  have step: "act_loop e (x # xs) rs s = act_loop e xs (rs @ [?res]) ?s2"
    by (simp add: Let_def split_beta)
  have l2: "log_file ?s2 = log_file s @ [\<lparr>ev_timestamp = clock e (clock_reads ?s1), ev_cycle = cycle_count s, ev_type = ''act'', ev_data = ActData ?res\<rparr>]"
    by (simp add: log_event_frame uniform_frame)
  have c2: "cycle_count ?s2 = cycle_count s" "total_experiments ?s2 = total_experiments s"
    by (simp_all add: log_event_frame uniform_frame)
  from Cons.IH[of "rs @ [?res]" ?s2] obtain evs where
    ih: "length (fst (act_loop e xs (rs @ [?res]) ?s2)) = length (rs @ [?res]) + length xs"
        "cycle_count (snd (act_loop e xs (rs @ [?res]) ?s2)) = cycle_count ?s2"
        "total_experiments (snd (act_loop e xs (rs @ [?res]) ?s2)) = total_experiments ?s2"
        "log_file (snd (act_loop e xs (rs @ [?res]) ?s2)) = log_file ?s2 @ evs"
        "map ev_type evs = replicate (length xs) ''act''"
        "map ev_cycle evs = replicate (length xs) (cycle_count ?s2)"
    by blast
  let ?ev = "\<lparr>ev_timestamp = clock e (clock_reads ?s1), ev_cycle = cycle_count s, ev_type = ''act'', ev_data = ActData ?res\<rparr>"
  have "log_file (snd (act_loop e (x # xs) rs s)) = log_file s @ (?ev # evs)"
    unfolding step ih(4) l2 by simp
  moreover have "map ev_type (?ev # evs) = replicate (length (x # xs)) ''act''"
    using ih(5) by simp
  moreover have "map ev_cycle (?ev # evs) = replicate (length (x # xs)) (cycle_count s)"
    using ih(6) c2 by simp
  ultimately have ex: "\<exists>evs. log_file (snd (act_loop e (x # xs) rs s)) = log_file s @ evs \<and>
      map ev_type evs = replicate (length (x # xs)) ''act'' \<and>
      map ev_cycle evs = replicate (length (x # xs)) (cycle_count s)" by blast
  have "length (fst (act_loop e (x # xs) rs s)) = length rs + length (x # xs)"
    unfolding step ih(1) by simp
  moreover have "cycle_count (snd (act_loop e (x # xs) rs s)) = cycle_count s"
    unfolding step ih(2) c2 by simp
  moreover have "total_experiments (snd (act_loop e (x # xs) rs s)) = total_experiments s"
    unfolding step ih(3) c2 by simp
  ultimately show ?case using ex by blast
qed

lemma learn_loop_frame:
  "log_file (snd (snd (learn_loop xs kp rj s))) = log_file s \<and>
   cycle_count (snd (snd (learn_loop xs kp rj s))) = cycle_count s \<and>
   total_experiments (snd (snd (learn_loop xs kp rj s))) = total_experiments s"
  by (induction xs arbitrary: kp rj s) simp_all

lemma learn_frame:
  "\<exists>ev. log_file (snd (learn e rs sb s)) = log_file s @ [ev] \<and> ev_type ev = ''learn'' \<and> ev_cycle ev = cycle_count s"
  "cycle_count (snd (learn e rs sb s)) = cycle_count s"
  "total_experiments (snd (learn e rs sb s)) = total_experiments s"
  by (simp_all add: learn_def Let_def split_beta log_event_frame learn_loop_frame snapshot_now_frame)

lemma learn_gain: "r_gain (fst (learn e rs (snapshot c n) s)) = 0"
  by (simp add: learn_def Let_def split_beta snapshot_now_def now_utc_def snapshot_r)

lemma run_cycle_effect:
  "cycle_count (snd (run_cycle e s)) = cycle_count s + 1 \<and>
   cs_cycle (fst (run_cycle e s)) = cycle_count s + 1 \<and>
   cs_experiments (fst (run_cycle e s)) =
     length (fst (plan e (fst (reflect e (s\<lparr>cycle_count := cycle_count s + 1\<rparr>)))
                        (snd (reflect e (s\<lparr>cycle_count := cycle_count s + 1\<rparr>))))) \<and>
   total_experiments (snd (run_cycle e s)) =
     total_experiments s + cs_experiments (fst (run_cycle e s)) \<and>
   (\<exists>evs. log_file (snd (run_cycle e s)) = log_file s @ evs \<and>
      map ev_type evs =
        [''reflect'', ''plan''] @ replicate (cs_experiments (fst (run_cycle e s))) ''act'' @ [''learn''] \<and>
      map ev_cycle evs = replicate (length evs) (cycle_count s + 1))"
proof -
  define s1 where "s1 = s\<lparr>cycle_count := cycle_count s + 1\<rparr>"
  define sn where "sn = fst (reflect e s1)"
  define s2 where "s2 = snd (reflect e s1)"
  define xs where "xs = fst (plan e sn s2)"
  define s3 where "s3 = snd (plan e sn s2)"
  define rs where "rs = fst (act e xs s3)"
  define s4 where "s4 = snd (act e xs s3)"
  define s5 where "s5 = s4\<lparr>total_experiments := total_experiments s4 + length rs\<rparr>"
  define s6 where "s6 = snd (learn e rs sn s5)"
  note defs = s1_def sn_def s2_def xs_def s3_def rs_def s4_def s5_def s6_def
  have rc: "snd (run_cycle e s) = s6" "cs_experiments (fst (run_cycle e s)) = length xs"
    "cs_cycle (fst (run_cycle e s)) = cycle_count s6"
    by (simp_all add: run_cycle_def Let_def split_beta defs)
  have c1: "cycle_count s1 = cycle_count s + 1" "total_experiments s1 = total_experiments s"
    "log_file s1 = log_file s" by (simp_all add: s1_def)
  obtain ev1 where e1: "log_file s2 = log_file s1 @ [ev1]" "ev_type ev1 = ''reflect''"
    "ev_cycle ev1 = cycle_count s1"
    using reflect_frame(1)[of e s1] unfolding s2_def by blast
  have c2: "cycle_count s2 = cycle_count s1" "total_experiments s2 = total_experiments s1"
    by (simp_all add: s2_def reflect_frame)
  obtain ev2 where e2: "log_file s3 = log_file s2 @ [ev2]" "ev_type ev2 = ''plan''"
    "ev_cycle ev2 = cycle_count s2"
    using plan_frame(1)[of e sn s2] unfolding s3_def by blast
  have c3: "cycle_count s3 = cycle_count s2" "total_experiments s3 = total_experiments s2"
    by (simp_all add: s3_def plan_frame)
  have af: "length rs = length xs" "cycle_count s4 = cycle_count s3"
    "total_experiments s4 = total_experiments s3"
    using act_loop_frame[of e xs "[]" s3] by (simp_all add: rs_def s4_def act_def)
  obtain evs3 where e3: "log_file s4 = log_file s3 @ evs3"
    "map ev_type evs3 = replicate (length xs) ''act''"
    "map ev_cycle evs3 = replicate (length xs) (cycle_count s3)"
    using act_loop_frame[of e xs "[]" s3] unfolding s4_def act_def by blast
  have c5: "cycle_count s5 = cycle_count s4" "log_file s5 = log_file s4"
    "total_experiments s5 = total_experiments s4 + length rs" by (simp_all add: s5_def)
  obtain ev4 where e4: "log_file s6 = log_file s5 @ [ev4]" "ev_type ev4 = ''learn''"
    "ev_cycle ev4 = cycle_count s5"
    using learn_frame(1)[of e rs sn s5] unfolding s6_def by blast
  have c6: "cycle_count s6 = cycle_count s5" "total_experiments s6 = total_experiments s5"
    by (simp_all add: s6_def learn_frame)
  have cyc: "cycle_count s6 = cycle_count s + 1"
    using c1 c2 c3 af c5 c6 by simp
  have tot: "total_experiments s6 = total_experiments s + length xs"
    using c1 c2 c3 af c5 c6 by simp
  let ?evs = "ev1 # ev2 # evs3 @ [ev4]"
  have len3: "length evs3 = length xs" using arg_cong[OF e3(2), of length] by simp
  have lg: "log_file s6 = log_file s @ ?evs"
    using e1(1) e2(1) e3(1) e4(1) c1(3) c5(2) by simp
  have ty: "map ev_type ?evs = [''reflect'', ''plan''] @ replicate (length xs) ''act'' @ [''learn'']"
    using e1(2) e2(2) e3(2) e4(2) by simp
  have cy: "map ev_cycle ?evs = replicate (length ?evs) (cycle_count s + 1)"
    using e1(3) e2(3) e3(3) e4(3) c1 c2 c3 af c5 len3 by (simp add: replicate_append_same)
  have ex: "\<exists>evs. log_file s6 = log_file s @ evs \<and>
      map ev_type evs = [''reflect'', ''plan''] @ replicate (length xs) ''act'' @ [''learn''] \<and>
      map ev_cycle evs = replicate (length evs) (cycle_count s + 1)"
    using lg ty cy by blast
  have xs': "length xs = length (fst (plan e (fst (reflect e (s\<lparr>cycle_count := cycle_count s + 1\<rparr>)))
                        (snd (reflect e (s\<lparr>cycle_count := cycle_count s + 1\<rparr>)))))"
    by (simp add: defs)
  show ?thesis unfolding rc using cyc tot ex xs' by simp
qed

lemma run_cycle_three: "cs_experiments (fst (run_cycle e s)) = 3"
  using run_cycle_effect[where e = e and s = s] plan_length by simp

lemma iterate_cycles:
  "cycle_count (((\<lambda>s. snd (run_cycle e s)) ^^ k) s) = cycle_count s + k \<and>
   total_experiments (((\<lambda>s. snd (run_cycle e s)) ^^ k) s) = total_experiments s + 3 * k"
proof (induction k)
  case 0 show ?case by simp
next
  case (Suc k)
  let ?t = "((\<lambda>s. snd (run_cycle e s)) ^^ k) s"
  have "cycle_count (snd (run_cycle e ?t)) = cycle_count ?t + 1"
    "total_experiments (snd (run_cycle e ?t)) = total_experiments ?t + 3"
    using run_cycle_effect[where e = e and s = ?t] run_cycle_three[where e = e and s = ?t] by simp_all
  then show ?case using Suc by simp
qed

text \<open>
  Claim C9. \<open>run_cycle\<close> increments \<open>cycle_count\<close> by one, adds the number of experiments
  of the cycle's plan to \<open>total_experiments\<close>, and appends to the log one \<open>reflect\<close>
  record, one \<open>plan\<close> record, one \<open>act\<close> record for each experiment and one \<open>learn\<close>
  record, in this order and all tagged with the new cycle number. Hence after \<open>k\<close> cycles
  from a fresh loop \<open>cycle_count\<close> is \<open>k\<close> and \<open>total_experiments\<close> is the sum of the
  experiment counts, three for each cycle.
\<close>

theorem run_cycle_accounting:
  "cycle_count (snd (run_cycle e s)) = cycle_count s + 1 \<and>
   cs_experiments (fst (run_cycle e s)) =
     length (fst (plan e (fst (reflect e (s\<lparr>cycle_count := cycle_count s + 1\<rparr>)))
                        (snd (reflect e (s\<lparr>cycle_count := cycle_count s + 1\<rparr>))))) \<and>
   total_experiments (snd (run_cycle e s)) =
     total_experiments s + cs_experiments (fst (run_cycle e s)) \<and>
   (\<exists>evs. log_file (snd (run_cycle e s)) = log_file s @ evs \<and>
      map ev_type evs =
        [''reflect'', ''plan''] @ replicate (cs_experiments (fst (run_cycle e s))) ''act'' @ [''learn''] \<and>
      map ev_cycle evs = replicate (length evs) (cycle_count s + 1)) \<and>
   cycle_count (((\<lambda>s. snd (run_cycle e s)) ^^ k) (loop_init reg)) = k \<and>
   total_experiments (((\<lambda>s. snd (run_cycle e s)) ^^ k) (loop_init reg)) = 3 * k"
proof -
  have "cycle_count (loop_init reg) = 0" "total_experiments (loop_init reg) = 0"
    by (simp_all add: loop_init_def)
  then have "cycle_count (((\<lambda>s. snd (run_cycle e s)) ^^ k) (loop_init reg)) = k"
    "total_experiments (((\<lambda>s. snd (run_cycle e s)) ^^ k) (loop_init reg)) = 3 * k"
    using iterate_cycles[where e = e and k = k and s = "loop_init reg"] by simp_all
  then show ?thesis using run_cycle_effect[where e = e and s = s] by blast
qed

lemma run_loop_effect:
  "cycle_count (run_loop e k s) = cycle_count s + k \<and>
   total_experiments (run_loop e k s) = total_experiments s + 3 * k"
proof (induction k arbitrary: s)
  case 0
  show ?case by simp
next
  case (Suc k)
  let ?s1 = "snd (run_cycle e s)"
  let ?s2 = "snd (snapshot_now e ?s1)"
  have nb: "\<not> snap_r (fst (snapshot_now e ?s1)) \<ge> 999 / 1000"
    using snapshot_r_upper[of 0 None] by (simp add: snapshot_now_r)
  have step: "run_loop e (Suc k) s = run_loop e k ?s2"
    using nb by (simp add: Let_def split_beta)
  have "cycle_count ?s2 = cycle_count s + 1" "total_experiments ?s2 = total_experiments s + 3"
    using run_cycle_effect[where e = e and s = s] run_cycle_three[where e = e and s = s] by (simp_all add: snapshot_now_frame)
  then show ?case unfolding step using Suc[where s = ?s2] by simp
qed

text \<open>
  Claim C3. The fitness field of \<open>snapshot\<close> is one constant, the same for every clock
  reading, time argument and loop state, and it is below \<open>0.999\<close>. So \<open>learn\<close> computes
  \<open>r_gain = 0\<close> in every cycle, the early exit of \<open>run\<close> never fires, and \<open>run\<close> executes
  exactly \<open>max_cycles\<close> cycles (none for a negative argument).
\<close>

theorem snapshot_constant_run_exhausts:
  "snap_r (snapshot c1 n1) = snap_r (snapshot c2 n2) \<and>
   snap_r (fst (snapshot_now e s)) = snap_r (snapshot c1 n1) \<and>
   snap_r (snapshot c1 n1) = rd (1085 / 1200) rd_default_t rd_default_c rd_default_d \<and>
   snap_r (snapshot c1 n1) < 999 / 1000 \<and>
   r_gain (fst (learn e rs (snapshot c1 n1) s)) = 0 \<and>
   cs_r_gain (fst (run_cycle e s)) = 0 \<and>
   cycle_count (snd (run e max_cycles s)) = cycle_count s + nat max_cycles \<and>
   cycles (fst (run e max_cycles s)) = cycle_count s + nat max_cycles"
proof -
  have a: "snap_r (snapshot c1 n1) = snap_r (snapshot c2 n2)" by (simp add: snapshot_r)
  have b: "snap_r (fst (snapshot_now e s)) = snap_r (snapshot c1 n1)"
    by (simp add: snapshot_now_r snapshot_r)
  have c: "snap_r (snapshot c1 n1) = rd (1085 / 1200) rd_default_t rd_default_c rd_default_d"
    by (rule snapshot_r)
  have d: "snap_r (snapshot c1 n1) < 999 / 1000" by (rule snapshot_r_upper)
  have f: "r_gain (fst (learn e rs (snapshot c1 n1) s)) = 0" by (rule learn_gain)
  have g: "cs_r_gain (fst (run_cycle e s)) = 0"
    by (simp add: run_cycle_def Let_def split_beta reflect_def snapshot_now_def now_utc_def learn_gain)
  have h: "cycle_count (snd (run e max_cycles s)) = cycle_count s + nat max_cycles"
    "cycles (fst (run e max_cycles s)) = cycle_count s + nat max_cycles"
    using run_loop_effect[where e = e and k = "nat max_cycles" and s = s]
    by (simp_all add: run_def Let_def split_beta snapshot_now_frame)
  show ?thesis using a b c d f g h by blast
qed

text \<open>
  What \<open>build\<close> returns, when it returns: exactly one of the error and the payload is
  present, and the component uid and the kind are always there.
\<close>

lemma python_build_shape:
  assumes "python_build imp c = Inr d"
  shows "(dict_get d ''error'' = None) \<noteq> (dict_get d ''result'' = None) \<and>
         dict_get d ''component'' = Some (VStr (uid c)) \<and>
         dict_get d ''kind'' = Some (VStr ''python'') \<and>
         (dict_get d ''error'' \<noteq> None \<longrightarrow> (\<exists>m. dict_get d ''error'' = Some (VStr m)))"
  using assms
  by (auto simp: python_build_def Let_def dict_get_def split: if_splits sum.splits)

lemma yaml_build_shape:
  assumes "yaml_build w c = Inr d"
  shows "(dict_get d ''error'' = None) \<noteq> (dict_get d ''data'' = None) \<and>
         dict_get d ''component'' = Some (VStr (uid c)) \<and>
         dict_get d ''kind'' = Some (VStr ''yaml'') \<and>
         (dict_get d ''error'' \<noteq> None \<longrightarrow> (\<exists>m. dict_get d ''error'' = Some (VStr m)))"
  using assms
  by (auto simp: yaml_build_def Let_def dict_get_def split: if_splits sum.splits pyerror.splits)

text \<open>
  Claim C2 says that \<open>build\<close> never raises. A factory path without a dot makes the
  unpacking of \<^verbatim>\<open>rsplit(".", 1)\<close> raise \<open>ValueError\<close>, which \<^verbatim>\<open>PythonLoader.build\<close>
  does not catch, whatever the importer; and a YAML component without a \<^verbatim>\<open>path\<close> reads
  the current directory, whose \<open>OSError\<close> \<^verbatim>\<open>YamlLoader.build\<close> does not catch.
\<close>

theorem build_raises:
  "python_build imp \<lparr>uid = ''widget'', kind = ''python'', conf = [(''factory'', VStr ''make_widget'')]\<rparr>
     = Inl (ValueError ''not enough values to unpack (expected 2, got 1)'') \<and>
   yaml_build \<lparr>cwd = ''/srv'', path_exists = (\<lambda>p. p = ''.''),
               read_text = (\<lambda>p. Inl (OSError ''[Errno 21] Is a directory'')),
               safe_load = (\<lambda>t. Inr VNone)\<rparr>
     \<lparr>uid = ''settings'', kind = ''yaml'', conf = []\<rparr>
     = Inl (OSError ''[Errno 21] Is a directory'')"
  by (simp add: python_build_def python_try_def conf_get_def dict_get_def rsplit1_def
      yaml_build_def Path_def)

lemma rne_cases: "rne r = \<lfloor>r\<rfloor> \<or> rne r = \<lfloor>r\<rfloor> + 1"
  by (simp add: rne_def Let_def)

lemma rne_error: "\<bar>of_int (rne r) - r\<bar> \<le> 1 / 2"
proof -
  have "of_int \<lfloor>r\<rfloor> \<le> r" "r < of_int \<lfloor>r\<rfloor> + 1" by linarith+
  then show ?thesis unfolding rne_def Let_def by (auto simp: abs_le_iff) 
qed

lemma rne_unique:
  assumes "\<bar>r - of_int k\<bar> < 1 / 2" shows "rne r = k"
proof -
  have e: "\<bar>of_int (rne r) - r\<bar> \<le> 1 / 2" by (rule rne_error)
  have "\<bar>of_int (rne r) - (of_int k :: real)\<bar> < 1" using assms e by linarith
  then have "\<bar>rne r - k\<bar> < 1" by (metis of_int_1 of_int_abs of_int_diff of_int_less_iff)
  then show ?thesis by linarith
qed

lemma rne_of_int: "rne (of_int k) = k"
  by (rule rne_unique) simp

lemma rne_ge_int:
  assumes "of_int k \<le> r" shows "k \<le> rne r"
proof -
  have "k \<le> \<lfloor>r\<rfloor>" using assms by (simp add: le_floor_iff)
  then show ?thesis using rne_cases[of r] by linarith
qed

lemma rne_le_int:
  assumes "r \<le> of_int k" shows "rne r \<le> k"
proof (cases "r = of_int k")
  case True then show ?thesis by (simp add: rne_of_int)
next
  case False
  then have "r < of_int k" using assms by simp
  then have "\<lfloor>r\<rfloor> < k" by (simp add: floor_less_iff)
  then show ?thesis using rne_cases[of r] by linarith
qed

lemma rne_mono:
  assumes "r \<le> s" shows "rne r \<le> rne s"
proof (cases "\<lfloor>r\<rfloor> = \<lfloor>s\<rfloor>")
  case False
  then have "\<lfloor>r\<rfloor> < \<lfloor>s\<rfloor>" using floor_mono[OF assms] by linarith
  then show ?thesis using rne_cases[of r] rne_cases[of s] by linarith
next
  case True
  then have "r - of_int \<lfloor>r\<rfloor> \<le> s - of_int \<lfloor>s\<rfloor>" using assms by simp
  then show ?thesis using True unfolding rne_def Let_def by (auto split: if_splits)
qed

lemma two_powr_int: "(2::real) powr (of_int k) = 2 powi k"
  by (simp add: powr_real_of_int')

lemma fexp_ge: "- 1022 \<le> fexp x"
  by (simp add: fexp_def)

lemma fexp_upper:
  assumes "0 < x" shows "x < 2 powi (fexp x + 1)"
proof -
  have "log 2 x < of_int (\<lfloor>log 2 x\<rfloor> + 1)" by linarith
  also have "\<dots> \<le> of_int (fexp x + 1)" using assms by (simp add: fexp_def)
  finally have "log 2 x < of_int (fexp x + 1)" .
  then have "x < 2 powr (of_int (fexp x + 1))" using assms by (simp add: log_less_iff)
  then show ?thesis by (simp only: two_powr_int)
qed

lemma fexp_lower:
  assumes "0 < x" "- 1022 < fexp x \<or> 2 powi (- 1022) \<le> x" shows "2 powi (fexp x) \<le> x"
proof -
  have "(- 1022 :: int) \<le> \<lfloor>log 2 x\<rfloor>"
  proof (cases "- 1022 < fexp x")
    case True
    have "fexp x = max \<lfloor>log 2 x\<rfloor> (- 1022)" using assms(1) by (simp add: fexp_def)
    with True show ?thesis by linarith
  next
    case False
    then have "2 powi (- 1022) \<le> x" using assms(2) by simp
    then have "2 powr (of_int (- 1022)) \<le> x" by (simp only: two_powr_int)
    then have "of_int (- 1022) \<le> log 2 x" using assms(1) by (simp add: le_log_iff)
    then show ?thesis by (simp add: le_floor_iff)
  qed
  then have e: "fexp x = \<lfloor>log 2 x\<rfloor>" using assms(1) by (simp add: fexp_def)
  have "of_int (fexp x) \<le> log 2 x" unfolding e by simp
  then have "2 powr (of_int (fexp x)) \<le> x" using assms(1) by (simp add: le_log_iff)
  then show ?thesis by (simp only: two_powr_int)
qed

lemma fexp_mono:
  assumes "0 < x" "x \<le> y" shows "fexp x \<le> fexp y"
proof -
  have "log 2 x \<le> log 2 y" using assms by simp
  then have "\<lfloor>log 2 x\<rfloor> \<le> \<lfloor>log 2 y\<rfloor>" by (rule floor_mono)
  then show ?thesis using assms by (simp add: fexp_def)
qed

lemma fexp_eq:
  assumes "2 powi e \<le> x" "x < 2 powi (e + 1)" "- 1022 \<le> e" shows "fexp x = e"
proof -
  have pos: "0 < x" using assms(1) by (smt (verit) zero_less_power_int)
  have "2 powr (of_int e) \<le> x" "x < 2 powr (of_int e + 1)"
    using assms two_powr_int[of e] two_powr_int[of "e + 1"] by simp_all
  then have "\<lfloor>log 2 x\<rfloor> = e" using pos by (simp add: floor_log_eq_powr_iff)
  then show ?thesis using pos assms(3) by (simp add: fexp_def)
qed

lemma ulp_pos: "0 < ulp x"
  by (simp add: ulp_def)

lemma ulp_mult: "2 powi 52 * ulp x = 2 powi (fexp x)" "2 powi 53 * ulp x = 2 powi (fexp x + 1)"
proof -
  have a: "(2::real) powi (52 + (fexp x - 52)) = 2 powi 52 * 2 powi (fexp x - 52)"
    by (rule power_int_add) simp
  have b: "(2::real) powi (53 + (fexp x - 52)) = 2 powi 53 * 2 powi (fexp x - 52)"
    by (rule power_int_add) simp
  have c: "52 + (fexp x - 52) = fexp x" "53 + (fexp x - 52) = fexp x + 1" by simp_all
  show "2 powi 52 * ulp x = 2 powi (fexp x)" using a unfolding c ulp_def by simp
  show "2 powi 53 * ulp x = 2 powi (fexp x + 1)" using b unfolding c ulp_def by simp
qed

lemma fl_zero: "fl 0 = 0"
  by (simp add: fl_def)

lemma fl_error: "\<bar>fl x - x\<bar> \<le> ulp x / 2"
proof (cases "x = 0")
  case True then show ?thesis using ulp_pos[of x] by (simp add: fl_def)
next
  case False
  have "\<bar>of_int (rne (x / ulp x)) - x / ulp x\<bar> * ulp x \<le> 1 / 2 * ulp x"
    using rne_error[of "x / ulp x"] ulp_pos[of x] by (intro mult_right_mono) simp_all
  moreover have "\<bar>of_int (rne (x / ulp x)) - x / ulp x\<bar> * ulp x = \<bar>fl x - x\<bar>"
  proof -
    have "\<bar>of_int (rne (x / ulp x)) - x / ulp x\<bar> * ulp x
        = \<bar>(of_int (rne (x / ulp x)) - x / ulp x) * ulp x\<bar>"
      using ulp_pos[of x] by (simp add: abs_mult)
    also have "(of_int (rne (x / ulp x)) - x / ulp x) * ulp x = fl x - x"
      using ulp_pos[of x] False by (simp add: fl_def left_diff_distrib)
    finally show ?thesis .
  qed
  ultimately show ?thesis by simp
qed

lemma fl_nonneg:
  assumes "0 \<le> x" shows "0 \<le> fl x"
proof (cases "x = 0")
  case True then show ?thesis by (simp add: fl_def)
next
  case False
  have "0 \<le> x / ulp x" using assms ulp_pos[of x] by simp
  then have "0 \<le> rne (x / ulp x)" using rne_ge_int[of 0 "x / ulp x"] by simp
  then show ?thesis using False ulp_pos[of x] by (simp add: fl_def)
qed

lemma fl_upper:
  assumes "0 < x" shows "fl x \<le> 2 powi (fexp x + 1)"
proof -
  have "x / ulp x \<le> 2 powi 53"
    using fexp_upper[OF assms] ulp_pos[of x] ulp_mult(2)[of x] by (simp add: divide_le_eq)
  then have "x / ulp x \<le> of_int (2 ^ 53)" by simp
  then have "rne (x / ulp x) \<le> 2 ^ 53" by (rule rne_le_int)
  then have "(of_int (rne (x / ulp x)) :: real) \<le> 2 powi 53"
    by (metis of_int_le_iff of_int_numeral of_int_power power_int_numeral)
  then have "of_int (rne (x / ulp x)) * ulp x \<le> 2 powi 53 * ulp x"
    using ulp_pos[of x] by (intro mult_right_mono) simp_all
  then show ?thesis using assms ulp_mult(2)[of x] by (simp add: fl_def)
qed

lemma fl_lower:
  assumes "0 < x" "2 powi (fexp x) \<le> x" shows "2 powi (fexp x) \<le> fl x"
proof -
  have "2 powi 52 \<le> x / ulp x"
    using assms(2) ulp_pos[of x] ulp_mult(1)[of x] by (simp add: le_divide_eq)
  then have "of_int (2 ^ 52) \<le> x / ulp x" by simp
  then have "2 ^ 52 \<le> rne (x / ulp x)" by (rule rne_ge_int)
  then have "2 powi 52 \<le> (of_int (rne (x / ulp x)) :: real)"
    by (metis of_int_le_iff of_int_numeral of_int_power power_int_numeral)
  then have "2 powi 52 * ulp x \<le> of_int (rne (x / ulp x)) * ulp x"
    using ulp_pos[of x] by (intro mult_right_mono) simp_all
  then show ?thesis using assms ulp_mult(1)[of x] by (simp add: fl_def)
qed

lemma fl_mono:
  assumes "0 \<le> x" "x \<le> y" shows "fl x \<le> fl y"
proof (cases "x = 0")
  case True
  then show ?thesis using fl_nonneg[of y] assms by (simp add: fl_zero)
next
  case False
  then have x: "0 < x" and y: "0 < y" using assms by simp_all
  have le: "fexp x \<le> fexp y" by (rule fexp_mono[OF x assms(2)])
  show ?thesis
  proof (cases "fexp x = fexp y")
    case True
    then have u: "ulp x = ulp y" by (simp add: ulp_def)
    have "x / ulp y \<le> y / ulp y" using assms(2) ulp_pos[of y] by (simp add: divide_right_mono)
    then have "rne (x / ulp y) \<le> rne (y / ulp y)" by (rule rne_mono)
    then have "of_int (rne (x / ulp y)) * ulp y \<le> of_int (rne (y / ulp y)) * ulp y"
      using ulp_pos[of y] by (intro mult_right_mono) simp_all
    then show ?thesis using x y u by (simp add: fl_def)
  next
    case False
    then have lt: "fexp x + 1 \<le> fexp y" using le by simp
    then have "- 1022 < fexp y" using fexp_ge[of x] by linarith
    then have ly: "2 powi (fexp y) \<le> y" using fexp_lower[OF y] by simp
    have "fl x \<le> 2 powi (fexp x + 1)" by (rule fl_upper[OF x])
    also have "\<dots> \<le> 2 powi (fexp y)" using lt by (intro power_int_increasing) simp_all
    also have "\<dots> \<le> fl y" by (rule fl_lower[OF y ly])
    finally show ?thesis .
  qed
qed

lemma fl_exact:
  assumes "x / ulp x = of_int m" shows "fl x = x"
proof (cases "x = 0")
  case True then show ?thesis by (simp add: fl_def)
next
  case False
  have "rne (x / ulp x) = m" unfolding assms by (rule rne_of_int)
  then have "fl x = of_int m * ulp x" using False by (simp add: fl_def)
  also have "\<dots> = x" using assms ulp_pos[of x] by (simp add: field_simps)
  finally show ?thesis .
qed

lemma fl_one: "fl 1 = 1"
proof -
  have e: "fexp 1 = 0" by (rule fexp_eq) simp_all
  have "(1::real) / ulp 1 = of_int (2 ^ 52)" by (simp add: ulp_def e)
  then show ?thesis by (rule fl_exact)
qed

lemma fl_unit:
  assumes "0 \<le> x" "x \<le> 1" shows "0 \<le> fl x" "fl x \<le> 1"
  using fl_nonneg[OF assms(1)] fl_mono[OF assms] by (simp_all add: fl_one)

lemma fl_abs_err_unit:
  assumes "0 \<le> x" "x \<le> 1" shows "\<bar>fl x - x\<bar> \<le> 1 / 2 ^ 54"
proof -
  consider "x = 0" | "x = 1" | "0 < x" "x < 1" using assms by linarith
  then show ?thesis
  proof cases
    case 1 then show ?thesis by (simp add: fl_zero)
  next
    case 2 then show ?thesis by (simp add: fl_one)
  next
    case 3
    have "log 2 x < 0" using 3 by simp
    then have "\<lfloor>log 2 x\<rfloor> \<le> - 1" by (simp add: floor_le_iff)
    then have "fexp x \<le> - 1" using 3 by (simp add: fexp_def)
    then have "fexp x - 52 \<le> - 53" by simp
    then have "ulp x \<le> 2 powi (- 53)" unfolding ulp_def by (intro power_int_increasing) simp_all
    then have "ulp x / 2 \<le> 2 powi (- 53) / 2" by simp
    also have "\<dots> = 1 / 2 ^ 54" by (simp add: power_int_minus field_simps)
    finally show ?thesis using fl_error[of x] by linarith
  qed
qed

lemma fl_rel_err:
  assumes "1 \<le> x" shows "\<bar>fl x - x\<bar> \<le> x / 2 ^ 53"
proof -
  have pos: "0 < x" using assms by simp
  have "2 powi (- 1022) \<le> (1::real)" by (simp add: power_int_minus field_simps)
  then have "2 powi (- 1022) \<le> x" using assms by linarith
  then have lo: "2 powi (fexp x) \<le> x" using fexp_lower[OF pos] by simp
  have "ulp x * 2 powi 52 = 2 powi (fexp x)" using ulp_mult(1)[of x] by (simp add: mult.commute)
  then have "ulp x = 2 powi (fexp x) / 2 powi 52" by (simp add: field_simps)
  then have "ulp x \<le> x / 2 powi 52" using lo by (simp add: divide_right_mono)
  then have "ulp x / 2 \<le> x / 2 powi 52 / 2" by simp
  also have "\<dots> = x / 2 ^ 53" by simp
  finally show ?thesis using fl_error[of x] by linarith
qed

lemma fl_ge_one:
  assumes "1 \<le> x" shows "1 \<le> fl x"
  using fl_mono[of 1 x] assms by (simp add: fl_one)

lemma fl_eval:
  assumes "2 ^ 52 \<le> x * 2 ^ m" "x * 2 ^ m < 2 ^ 53" "m \<le> 1074"
  shows "fl x = of_int (rne (x * 2 ^ m)) / 2 ^ m"
proof -
  have pos: "0 < x"
  proof (rule ccontr)
    assume "\<not> 0 < x"
    then have "x * 2 ^ m \<le> 0" by (simp add: mult_le_0_iff)
    then show False using assms(1) by (smt (verit) zero_less_power)
  qed
  define e where "e = 52 - int m"
  have pm: "(2::real) powi e = 2 ^ 52 / 2 ^ m" "(2::real) powi (e + 1) = 2 ^ 53 / 2 ^ m"
    "(2::real) powi (e - 52) = 1 / 2 ^ m"
    unfolding e_def by (simp_all add: power_int_diff power_int_minus field_simps)
  have "2 powi e \<le> x" "x < 2 powi (e + 1)"
    using assms(1,2) unfolding pm by (simp_all add: field_simps)
  moreover have "- 1022 \<le> e" using assms(3) by (simp add: e_def)
  ultimately have "fexp x = e" by (rule fexp_eq)
  then have "ulp x = 1 / 2 ^ m" using pm(3) by (simp add: ulp_def)
  then show ?thesis using pos by (simp add: fl_def)
qed

lemma fl_powi:
  assumes "- 1074 \<le> k" shows "fl (2 powi k) = 2 powi k"
proof (cases "- 1022 \<le> k")
  case True
  have e: "fexp (2 powi k) = k"
  proof (rule fexp_eq)
    show "(2::real) powi k \<le> 2 powi k" by simp
    show "(2::real) powi k < 2 powi (k + 1)" by (rule power_int_strict_increasing) simp_all
    show "- 1022 \<le> k" by (rule True)
  qed
  have "(2::real) powi (k - (k - 52)) = 2 powi k / 2 powi (k - 52)"
    by (rule power_int_diff) simp
  then have "(2::real) powi k / 2 powi (k - 52) = of_int (2 ^ 52)" by simp
  then have "(2::real) powi k / ulp (2 powi k) = of_int (2 ^ 52)"
    by (simp only: ulp_def e)
  then show ?thesis by (rule fl_exact)
next
  case False
  have pos: "(0::real) < 2 powi k" by simp
  have "(2::real) powi k < 2 powi (- 1022)" using False by (intro power_int_strict_increasing) simp_all
  then have "log 2 (2 powi k) < log 2 (2 powi (- 1022))" using pos by simp
  then have "\<lfloor>log 2 ((2::real) powi k)\<rfloor> \<le> - 1022"
    by (smt (verit) fexp_def fexp_eq fexp_mono False \<open>(2::real) powi k < 2 powi (- 1022)\<close> pos power_int_strict_increasing)
  then have e: "fexp (2 powi k) = - 1022" by (simp add: fexp_def)
  obtain j where j: "k + 1074 = int j" using assms by (metis add.commute nonneg_int_cases diff_ge_0_iff_ge diff_minus_eq_add)
  have "(2::real) powi (k - (- 1074)) = 2 powi k / 2 powi (- 1074)"
    by (rule power_int_diff) simp
  moreover have "k - (- 1074) = int j" using j by simp
  ultimately have "(2::real) powi k / 2 powi (- 1074) = of_int (2 ^ j)" by simp
  moreover have "ulp (2 powi k) = 2 powi (- 1074)" by (simp add: ulp_def e)
  ultimately have "(2::real) powi k / ulp (2 powi k) = of_int (2 ^ j)" by (simp only:)
  then show ?thesis by (rule fl_exact)
qed

end
